theory Spec2Isabelle
  imports Main "HOL-Library.Word" "HOL-Library.Log_Nat" "HOL-Library.Signed_Division"
begin

unbundle bit_operations_syntax

section \<open>Single-precision arithmetic\<close>

text \<open>
  The kernel of \<^verbatim>\<open>KoClipMaskApplicator\<close> computes in \<^verbatim>\<open>float\<close> lanes. A finite binary32
  value is \<open>mant * 2 ^ expo\<close>; every operation computes the exact result and rounds it
  once to 24 significant bits (never below the exponent \<open>-149\<close> of the least subnormal),
  to nearest with ties to even, which is the default IEEE 754 rounding of the lane-wise
  \<^verbatim>\<open>*\<close> and \<^verbatim>\<open>+\<close> of xsimd, each rounded on its own (no fused multiply-add). Overflow to
  infinity is not represented: the kernel multiplies three numbers of at most 255 by a
  weighted sum of weights that add up to 1, and the integer it converts the product to is
  proved below to lie in \<open>[0, 2 ^ 31)\<close>, so that the conversion to a signed 32-bit lane is
  exact as well.
\<close>

datatype f32 = F32 (mant: int) (expo: int)

definition f32_value :: "f32 \<Rightarrow> rat" where
  \<comment> \<open>the number a value denotes\<close>
  "f32_value x = of_int (mant x) * 2 powi expo x"

definition rne_div :: "int \<Rightarrow> int \<Rightarrow> int" where
  \<comment> \<open>\<open>a / b\<close> for \<open>0 < b\<close>, rounded to the nearest integer, a tie to the even one\<close>
  "rne_div a b =
     (let d = a div b; r = a mod b
      in if b < 2 * r \<or> (2 * r = b \<and> odd d) then d + 1 else d)"

definition f32_round :: "int \<Rightarrow> int \<Rightarrow> f32" where
  "f32_round m e =
     (let s = max (bitlen \<bar>m\<bar> - 24) (- 149 - e)
      in if s \<le> 0 then F32 m e else F32 (rne_div m (2 ^ nat s)) (e + s))"

definition fmul :: "f32 \<Rightarrow> f32 \<Rightarrow> f32" where
  "fmul a b = f32_round (mant a * mant b) (expo a + expo b)"

definition fadd :: "f32 \<Rightarrow> f32 \<Rightarrow> f32" where
  "fadd a b =
     (let e = min (expo a) (expo b)
      in f32_round (mant a * 2 ^ nat (expo a - e) + mant b * 2 ^ nat (expo b - e)) e)"

definition to_float :: "int \<Rightarrow> f32" where
  \<comment> \<open>\<^verbatim>\<open>xsimd::to_float\<close> on one \<^verbatim>\<open>int\<close> lane\<close>
  "to_float n = f32_round n 0"

definition nearbyint_as_int :: "f32 \<Rightarrow> int" where
  \<comment> \<open>\<^verbatim>\<open>xsimd::nearbyint_as_int\<close> on one lane, in the default rounding mode\<close>
  "nearbyint_as_int x =
     (if 0 \<le> expo x then mant x * 2 ^ nat (expo x)
      else rne_div (mant x) (2 ^ nat (- expo x)))"

section \<open>The constants of the applicator\<close>

type_synonym quint32 = "32 word"

definition mask_v :: quint32 where
  \<comment> \<open>\<^verbatim>\<open>const uint_v mask = 0xFF\<close>, the value of every lane\<close>
  "mask_v = 0xFF"

definition colorChannelsMask :: quint32 where
  "colorChannelsMask = 0x00FFFFFF"

definition redLum :: f32 where
  \<comment> \<open>\<^verbatim>\<open>0.2125f\<close>\<close>
  "redLum = F32 7130317 (- 25)"

definition greenLum :: f32 where
  \<comment> \<open>\<^verbatim>\<open>0.7154f\<close>\<close>
  "greenLum = F32 3000605 (- 22)"

definition blueLum :: f32 where
  \<comment> \<open>\<^verbatim>\<open>0.0721f\<close>\<close>
  "blueLum = F32 4838549 (- 26)"

section \<open>One batch of the vectorized loop\<close>

text \<open>
  A batch \<^verbatim>\<open>uint_v\<close> or \<^verbatim>\<open>float_v\<close> is the list of its lanes, \<^verbatim>\<open>float_v::size\<close> of them.
  A shift, a mask, a conversion or a product of batches works lane by lane; a scalar
  operand is broadcast to every lane. \<^verbatim>\<open>bitwise_cast_compat<int>\<close> reads a lane as a
  signed 32-bit integer (\<open>sint\<close>) and \<^verbatim>\<open>bitwise_cast_compat<unsigned int>\<close> takes the
  integer back to its 32-bit pattern (\<open>word_of_int\<close>).
\<close>

definition vector_batch :: "quint32 list \<Rightarrow> quint32 list \<Rightarrow> quint32 list" where
  "vector_batch shapeData maskData =
     (let maskAlpha = map (\<lambda>w. to_float (sint (drop_bit 24 w AND mask_v))) maskData;
          maskRed = map (\<lambda>w. to_float (sint (drop_bit 16 w AND mask_v))) maskData;
          maskGreen = map (\<lambda>w. to_float (sint (drop_bit 8 w AND mask_v))) maskData;
          maskBlue = map (\<lambda>w. to_float (sint (w AND mask_v))) maskData;
          maskValue = map2 fmul maskAlpha
            (map2 fadd (map2 fadd (map (fmul redLum) maskRed) (map (fmul greenLum) maskGreen))
               (map (fmul blueLum) maskBlue));
          pixelAlpha = map2 fmul (map (\<lambda>w. to_float (sint (drop_bit 24 w))) shapeData) maskValue;
          pixelAlpha_i = map (\<lambda>x. (word_of_int (nearbyint_as_int x) :: quint32)) pixelAlpha
      in map2 (\<lambda>s a. (s AND colorChannelsMask) OR push_bit 24 a) shapeData pixelAlpha_i)"

section \<open>Buffers and cursors\<close>

text \<open>
  Both buffers hold packed 32-bit ARGB pixels: pixel \<open>i\<close> is the 32-bit value at byte
  offset \<open>4 * i\<close>, the one a 32-bit load at that offset reads. The image and the mask are
  two separate arrays of the caller. The cursors \<^verbatim>\<open>pixels\<close> and \<^verbatim>\<open>maskPixels\<close> are byte
  offsets into them. A load or store that is off the pixel grid or runs past the end of
  its buffer is outside the caller's contract (undefined behaviour in the source): the
  model answers \<open>None\<close>.
\<close>

record cursors =
  imageBuf :: "quint32 list"
  maskBuf :: "quint32 list"
  pixels :: nat
  maskPixels :: nat

definition load_unaligned :: "nat \<Rightarrow> quint32 list \<Rightarrow> nat \<Rightarrow> quint32 list option" where
  "load_unaligned W buf p =
     (if 4 dvd p \<and> p div 4 + W \<le> length buf then Some (take W (drop (p div 4) buf)) else None)"

definition store_unaligned :: "quint32 list \<Rightarrow> quint32 list \<Rightarrow> nat \<Rightarrow> quint32 list" where
  "store_unaligned v buf p = take (p div 4) buf @ v @ drop (p div 4 + length v) buf"

definition vectorPixelStride :: "nat \<Rightarrow> nat" where
  "vectorPixelStride W = 4 * W"

definition vector_step :: "nat \<Rightarrow> cursors \<Rightarrow> cursors option" where
  \<comment> \<open>the body of the \<^verbatim>\<open>for\<close> loop, for the batch width \<open>W = float_v::size\<close>\<close>
  "vector_step W st =
     (case load_unaligned W (imageBuf st) (pixels st) of
        None \<Rightarrow> None
      | Some shapeData \<Rightarrow>
          (case load_unaligned W (maskBuf st) (maskPixels st) of
             None \<Rightarrow> None
           | Some maskData \<Rightarrow>
               Some (st\<lparr>imageBuf :=
                          store_unaligned (vector_batch shapeData maskData) (imageBuf st) (pixels st),
                        pixels := pixels st + vectorPixelStride W,
                        maskPixels := maskPixels st + vectorPixelStride W\<rparr>)))"

function vector_loop :: "nat \<Rightarrow> int \<Rightarrow> int \<Rightarrow> cursors \<Rightarrow> cursors option" where
  "vector_loop W block i st =
     (if i < block
      then (case vector_step W st of None \<Rightarrow> None | Some st' \<Rightarrow> vector_loop W block (i + 1) st')
      else Some st)"
  by pat_completeness auto
termination
  by (relation "measure (\<lambda>(W, block, i, st). nat (block - i))") auto

section \<open>The per-pixel rule of the specification\<close>

text \<open>
  A pixel is a 32-bit ARGB value: alpha in bits 24 to 31, red in 16 to 23, green in 8 to
  15, blue in 0 to 7. The contract of the specification, for one image pixel and the mask
  pixel at the same index: the four mask channels and the image alpha are taken as
  integers in \<open>[0, 255]\<close>, \<open>maskLuma = maskAlpha * (0.2125 * maskRed + 0.7154 * maskGreen +
  0.0721 * maskBlue)\<close>, the new alpha is \<open>imageAlpha * maskLuma\<close> rounded to the nearest
  integer, and the pixel is rebuilt from the low 24 bits of the image pixel with the new
  alpha in the top 8 bits, where the store keeps its low 8 bits.
\<close>

definition channel :: "nat \<Rightarrow> quint32 \<Rightarrow> int" where
  \<comment> \<open>the 8-bit channel that starts at bit \<open>k\<close>: alpha 24, red 16, green 8, blue 0\<close>
  "channel k w = uint (drop_bit k w AND 0xFF)"

definition maskLuma :: "quint32 \<Rightarrow> f32" where
  "maskLuma m =
     fmul (to_float (channel 24 m))
       (fadd (fadd (fmul redLum (to_float (channel 16 m))) (fmul greenLum (to_float (channel 8 m))))
          (fmul blueLum (to_float (channel 0 m))))"

definition newImageAlpha :: "quint32 \<Rightarrow> quint32 \<Rightarrow> int" where
  "newImageAlpha shape m = nearbyint_as_int (fmul (to_float (channel 24 shape)) (maskLuma m))"

definition luminancePixel :: "quint32 \<Rightarrow> quint32 \<Rightarrow> quint32" where
  "luminancePixel shape m =
     (shape AND 0x00FFFFFF) OR push_bit 24 (word_of_int (newImageAlpha shape m))"

section \<open>The scalar fallback\<close>

text \<open>
  Modelled from the spec: the body of \<^verbatim>\<open>KoClipMaskApplicatorBase::fallbackLuminanceMask\<close>,
  which \<^verbatim>\<open>KoClipMaskApplicator.h\<close> only declares. The specification has it process
  \<^verbatim>\<open>nPixels\<close> pixels from the two cursors on, one at a time, each by the per-pixel rule
  with the arithmetic of the vectorized path, and leave the mask alone.
\<close>

definition fallback_step :: "cursors \<Rightarrow> cursors option" where
  "fallback_step st =
     (if 4 dvd pixels st \<and> pixels st div 4 < length (imageBuf st) \<and>
         4 dvd maskPixels st \<and> maskPixels st div 4 < length (maskBuf st)
      then Some (st\<lparr>imageBuf := (imageBuf st)
                       [pixels st div 4 :=
                          luminancePixel (imageBuf st ! (pixels st div 4))
                            (maskBuf st ! (maskPixels st div 4))],
                    pixels := pixels st + 4,
                    maskPixels := maskPixels st + 4\<rparr>)
      else None)"

text \<open>Modelled from the spec: the loop of \<^verbatim>\<open>fallbackLuminanceMask\<close> over its pixels.\<close>

function fallback_loop :: "int \<Rightarrow> int \<Rightarrow> cursors \<Rightarrow> cursors option" where
  "fallback_loop nPixels i st =
     (if i < nPixels
      then (case fallback_step st of None \<Rightarrow> None | Some st' \<Rightarrow> fallback_loop nPixels (i + 1) st')
      else Some st)"
  by pat_completeness auto
termination
  by (relation "measure (\<lambda>(nPixels, i, st). nat (nPixels - i))") auto

text \<open>
  Modelled from the spec: \<^verbatim>\<open>fallbackLuminanceMask(pixels, maskPixels, nPixels)\<close>, on the
  two buffers and the byte offsets of its pointer arguments.
\<close>

definition fallbackLuminanceMask ::
  "quint32 list \<Rightarrow> quint32 list \<Rightarrow> nat \<Rightarrow> nat \<Rightarrow> int \<Rightarrow> (quint32 list \<times> quint32 list) option" where
  "fallbackLuminanceMask img msk pixels0 maskPixels0 nPixels =
     map_option (\<lambda>st. (imageBuf st, maskBuf st))
       (fallback_loop nPixels 0
          \<lparr>imageBuf = img, maskBuf = msk, pixels = pixels0, maskPixels = maskPixels0\<rparr>)"

section \<open>The two variants of \<^verbatim>\<open>applyLuminanceMask\<close>\<close>

text \<open>
  The buffers are passed with the byte offsets of the two pointer arguments; the result
  is the pair of buffers after the call. \<^verbatim>\<open>nPixels\<close> is a signed \<^verbatim>\<open>int\<close>, so \<^verbatim>\<open>/\<close> and
  \<^verbatim>\<open>%\<close> truncate towards zero (\<open>sdiv\<close>, \<open>smod\<close>).
\<close>

definition applyLuminanceMask_generic ::
  "quint32 list \<Rightarrow> quint32 list \<Rightarrow> nat \<Rightarrow> nat \<Rightarrow> int \<Rightarrow> (quint32 list \<times> quint32 list) option" where
  \<comment> \<open>the primary template: no vectorized implementation\<close>
  "applyLuminanceMask_generic img msk pixels0 maskPixels0 nPixels =
     fallbackLuminanceMask img msk pixels0 maskPixels0 nPixels"

text \<open>
  The xsimd specialization ends with a call of \<^verbatim>\<open>KoClipMaskApplicatorBase::fallbackLuminanceMask\<close>
  by its qualified name. It is written first with any function \<open>fallback\<close> in the place of
  that callee, and then with the fallback above.
\<close>

type_synonym fallback =
  "quint32 list \<Rightarrow> quint32 list \<Rightarrow> nat \<Rightarrow> nat \<Rightarrow> int \<Rightarrow> (quint32 list \<times> quint32 list) option"

definition applyLuminanceMask_with ::
  "fallback \<Rightarrow> nat \<Rightarrow> quint32 list \<Rightarrow> quint32 list \<Rightarrow> nat \<Rightarrow> nat \<Rightarrow> int
     \<Rightarrow> (quint32 list \<times> quint32 list) option" where
  \<comment> \<open>the xsimd specialization, for the batch width \<open>W = float_v::size\<close>\<close>
  "applyLuminanceMask_with fallback W img msk pixels0 maskPixels0 nPixels =
     (let block = nPixels sdiv int W;
          block2 = nPixels smod int W
      in case vector_loop W block 0
                \<lparr>imageBuf = img, maskBuf = msk, pixels = pixels0, maskPixels = maskPixels0\<rparr> of
           None \<Rightarrow> None
         | Some st \<Rightarrow> fallback (imageBuf st) (maskBuf st) (pixels st) (maskPixels st) block2)"

definition applyLuminanceMask ::
  "nat \<Rightarrow> quint32 list \<Rightarrow> quint32 list \<Rightarrow> nat \<Rightarrow> nat \<Rightarrow> int
     \<Rightarrow> (quint32 list \<times> quint32 list) option" where
  "applyLuminanceMask W img msk pixels0 maskPixels0 nPixels =
     applyLuminanceMask_with fallbackLuminanceMask W img msk pixels0 maskPixels0 nPixels"

section \<open>The expected image buffer\<close>

text \<open>
  \<open>masked img msk a b n\<close> is the image buffer in which the \<open>n\<close> pixels from index \<open>a\<close> on
  have been replaced by the per-pixel rule, pixel \<open>a + k\<close> with the mask pixel \<open>b + k\<close>, and
  every other pixel is as before.
\<close>

definition masked :: "quint32 list \<Rightarrow> quint32 list \<Rightarrow> nat \<Rightarrow> nat \<Rightarrow> nat \<Rightarrow> quint32 list" where
  "masked img msk a b n =
     map (\<lambda>j. if a \<le> j \<and> j < a + n then luminancePixel (img ! j) (msk ! (j - a + b)) else img ! j)
       [0..<length img]"

text \<open>Two image buffers of one length whose pixels agree on the low 24 bits.\<close>

definition same_rgb :: "quint32 list \<Rightarrow> quint32 list \<Rightarrow> bool" where
  "same_rgb img img' = list_all2 (\<lambda>x y. y AND 0x00FFFFFF = x AND 0x00FFFFFF) img img'"

section \<open>One memory for both buffers\<close>

text \<open>
  The source takes two pointers into the caller's memory, and nothing in it keeps them
  apart. Here both cursors are byte offsets into one memory, so that the image range and
  the mask range may overlap or coincide; the batch of lines 74 to 87 is the one above.
\<close>

record shared =
  memory :: "quint32 list"
  pixelsAt :: nat
  maskPixelsAt :: nat

definition vector_step_shared :: "nat \<Rightarrow> shared \<Rightarrow> shared option" where
  "vector_step_shared W st =
     (case load_unaligned W (memory st) (pixelsAt st) of
        None \<Rightarrow> None
      | Some shapeData \<Rightarrow>
          (case load_unaligned W (memory st) (maskPixelsAt st) of
             None \<Rightarrow> None
           | Some maskData \<Rightarrow>
               Some (st\<lparr>memory :=
                          store_unaligned (vector_batch shapeData maskData) (memory st) (pixelsAt st),
                        pixelsAt := pixelsAt st + vectorPixelStride W,
                        maskPixelsAt := maskPixelsAt st + vectorPixelStride W\<rparr>)))"

function vector_loop_shared :: "nat \<Rightarrow> int \<Rightarrow> int \<Rightarrow> shared \<Rightarrow> shared option" where
  "vector_loop_shared W block i st =
     (if i < block
      then (case vector_step_shared W st of
              None \<Rightarrow> None
            | Some st' \<Rightarrow> vector_loop_shared W block (i + 1) st')
      else Some st)"
  by pat_completeness auto
termination
  by (relation "measure (\<lambda>(W, block, i, st). nat (block - i))") auto

text \<open>
  Modelled from the spec: one pixel of \<^verbatim>\<open>fallbackLuminanceMask\<close>, whose body is not among
  the sources, on the one memory: the per-pixel rule at the two cursors.
\<close>

definition fallback_step_shared :: "shared \<Rightarrow> shared option" where
  "fallback_step_shared st =
     (if 4 dvd pixelsAt st \<and> pixelsAt st div 4 < length (memory st) \<and>
         4 dvd maskPixelsAt st \<and> maskPixelsAt st div 4 < length (memory st)
      then Some (st\<lparr>memory := (memory st)
                       [pixelsAt st div 4 :=
                          luminancePixel (memory st ! (pixelsAt st div 4))
                            (memory st ! (maskPixelsAt st div 4))],
                    pixelsAt := pixelsAt st + 4,
                    maskPixelsAt := maskPixelsAt st + 4\<rparr>)
      else None)"

text \<open>Modelled from the spec: the loop of \<^verbatim>\<open>fallbackLuminanceMask\<close> on the one memory.\<close>

function fallback_loop_shared :: "int \<Rightarrow> int \<Rightarrow> shared \<Rightarrow> shared option" where
  "fallback_loop_shared nPixels i st =
     (if i < nPixels
      then (case fallback_step_shared st of
              None \<Rightarrow> None
            | Some st' \<Rightarrow> fallback_loop_shared nPixels (i + 1) st')
      else Some st)"
  by pat_completeness auto
termination
  by (relation "measure (\<lambda>(nPixels, i, st). nat (nPixels - i))") auto

text \<open>
  The xsimd specialization on the one memory: the loop of the source, then the fallback
  for \<^verbatim>\<open>block2\<close> pixels at the cursors the loop has reached.
\<close>

definition applyLuminanceMask_shared :: "nat \<Rightarrow> quint32 list \<Rightarrow> nat \<Rightarrow> nat \<Rightarrow> int \<Rightarrow> quint32 list option" where
  "applyLuminanceMask_shared W mem pixels0 maskPixels0 nPixels =
     (let block = nPixels sdiv int W;
          block2 = nPixels smod int W
      in case vector_loop_shared W block 0
                \<lparr>memory = mem, pixelsAt = pixels0, maskPixelsAt = maskPixels0\<rparr> of
           None \<Rightarrow> None
         | Some st \<Rightarrow> map_option memory (fallback_loop_shared block2 0 st))"

text \<open>
  \<open>kept_outside m m' a k\<close>: the memory \<open>m'\<close> has the length of \<open>m\<close> and differs from it at
  most in the \<open>k\<close> pixels from index \<open>a\<close> on.
\<close>

definition kept_outside :: "quint32 list \<Rightarrow> quint32 list \<Rightarrow> nat \<Rightarrow> nat \<Rightarrow> bool" where
  "kept_outside m m' a k \<longleftrightarrow>
     length m' = length m \<and> (\<forall>j<length m. j < a \<or> a + k \<le> j \<longrightarrow> m' ! j = m ! j)"

section \<open>Sample buffers\<close>

text \<open>
  Six image pixels and three masks for them, on which the theorems below are exercised:
  a mask of mixed pixels, a mask whose alpha channel is zero in its first five pixels,
  and a mask that is full white and opaque in its first five pixels. A call over five
  pixels with the batch width 4 runs one batch and one fallback pixel.
\<close>

definition sample_image :: "quint32 list" where
  "sample_image = [0xC8123456, 0xFF000001, 0x80ABCDEF, 0x01020304, 0x7F010203, 0x11111111]"

definition sample_mask :: "quint32 list" where
  "sample_mask = [0xFFFFFFFF, 0xFFFFFFFF, 0x80FFFFFF, 0x7F102030, 0x01010101, 0x22222222]"

definition clear_mask :: "quint32 list" where
  "clear_mask = [0x00FFFFFF, 0x00123456, 0x00000000, 0x00FF00FF, 0x00ABCDEF, 0xFF222222]"

definition white_mask :: "quint32 list" where
  "white_mask = [0xFFFFFFFF, 0xFFFFFFFF, 0xFFFFFFFF, 0xFFFFFFFF, 0xFFFFFFFF, 0x22222222]"

text \<open>
  A function to stand in for the fallback: it returns the image it is given and, in the
  place of the mask, the two cursors and the count it is called with.
\<close>

definition probe :: fallback where
  "probe img msk pixels0 maskPixels0 nPixels =
     Some (img, [of_nat pixels0, of_nat maskPixels0, word_of_int nPixels])"

text \<open>
  Both loops are unfolded one iteration at a time, by their equation at the current
  counter.
\<close>

declare vector_loop.simps [simp del] fallback_loop.simps [simp del]
  vector_loop_shared.simps [simp del] fallback_loop_shared.simps [simp del]

section \<open>Channels of a pixel\<close>

text \<open>
  A channel is below 256, so reading it as a signed lane gives the same integer; the
  pixel that is stored keeps the low 24 bits of the image pixel and carries the low 8
  bits of the new alpha on top.
\<close>

lemma ff_mask: "(0xFF :: quint32) = Bit_Operations.mask 8"
  by (simp add: mask_eq_exp_minus_1)

lemma uint_and_ff: "uint (w AND 0xFF :: quint32) < 256"
proof -
  have "uint (take_bit 8 w) < 2 ^ 8"
    unfolding unsigned_take_bit_eq by (rule take_bit_int_less_exp)
  then show ?thesis by (simp add: ff_mask flip: take_bit_eq_mask)
qed

lemma sint_small: "uint (x :: quint32) < 256 \<Longrightarrow> sint x = uint x"
proof -
  assume a: "uint x < 256"
  have "- (2 ^ 31) \<le> (0 :: int)" by simp
  also have "0 \<le> uint x" by simp
  finally have l: "- (2 ^ 31) \<le> uint x" .
  have u: "uint x < 2 ^ 31" using a by simp
  have "signed_take_bit 31 (uint x) = uint x"
    using l u by (rule signed_take_bit_int_eq_self)
  then show ?thesis by (simp add: sint_uint)
qed

lemma drop24_small: "uint (drop_bit 24 w :: quint32) < 256"
proof -
  have "uint w < 2 ^ 32" using uint_lt2p [of w] by simp
  then have "uint w div 2 ^ 24 < 256" by simp
  then show ?thesis by (simp add: unsigned_drop_bit_eq drop_bit_eq_div uint_div_distrib)
qed

lemma drop24_and: "drop_bit 24 (w :: quint32) AND 0xFF = drop_bit 24 w"
  unfolding ff_mask
  by (rule bit_word_eqI) (auto simp add: bit_simps dest: bit_imp_le_length)

lemma sint_channel: "sint (drop_bit k w AND mask_v) = channel k w"
  by (simp add: channel_def mask_v_def sint_small uint_and_ff)

lemma sint_alpha: "sint (drop_bit 24 w :: quint32) = channel 24 w"
  by (simp add: channel_def drop24_and sint_small drop24_small)

lemma ffffff_mask: "(0x00FFFFFF :: quint32) = Bit_Operations.mask 24"
  by (simp add: mask_eq_exp_minus_1)

lemma luminancePixel_rgb: "luminancePixel s m AND 0x00FFFFFF = s AND 0x00FFFFFF"
  unfolding luminancePixel_def ffffff_mask
  by (rule bit_word_eqI) (auto simp add: bit_simps)

lemma channel_alpha_store:
  "channel 24 ((s AND 0x00FFFFFF) OR push_bit 24 (word_of_int r)) = r mod 256"
proof -
  have "drop_bit 24 ((s AND Bit_Operations.mask 24) OR push_bit 24 (word_of_int r :: quint32)) AND Bit_Operations.mask 8
          = (take_bit 8 (word_of_int r) :: quint32)"
    by (rule bit_word_eqI) (auto simp add: bit_simps)
  then have "channel 24 ((s AND 0x00FFFFFF) OR push_bit 24 (word_of_int r)) = uint (take_bit 8 (word_of_int r :: quint32))"
    by (simp add: channel_def ff_mask ffffff_mask)
  also have "\<dots> = take_bit 8 (take_bit LENGTH(32) r)"
    by (simp only: unsigned_take_bit_eq uint_word_of_int_eq)
  also have "\<dots> = r mod 256"
    by (simp add: take_bit_eq_mod mod_mod_cancel)
  finally show ?thesis .
qed

lemma luminancePixel_alpha: "channel 24 (luminancePixel s m) = newImageAlpha s m mod 256"
  by (simp add: luminancePixel_def channel_alpha_store)

lemma channel_rgb_cong:
  assumes "x AND 0x00FFFFFF = y AND 0x00FFFFFF" "k + 8 \<le> 24"
  shows "channel k x = channel k y"
proof -
  have *: "drop_bit k w AND Bit_Operations.mask 8 = drop_bit k (w AND Bit_Operations.mask 24) AND Bit_Operations.mask 8"
    for w :: quint32
    using assms(2) by (intro bit_word_eqI) (auto simp add: bit_simps)
  show ?thesis
    using assms(1) by (simp add: channel_def ff_mask ffffff_mask * [of x] * [of y])
qed

lemma pixel_eqI:
  assumes "x AND 0x00FFFFFF = y AND 0x00FFFFFF" "channel 24 x = channel 24 y"
  shows "x = y"
proof -
  have "uint (drop_bit 24 x) = uint (drop_bit 24 y)"
    using assms(2) by (simp add: channel_def drop24_and)
  then have a: "drop_bit 24 x = drop_bit 24 y"
    by (simp add: word_uint_eq_iff)
  have b: "take_bit 24 x = take_bit 24 y"
    using assms(1) by (simp add: ffffff_mask take_bit_eq_mask)
  show ?thesis
  proof (rule bit_word_eqI)
    fix n assume "n < LENGTH(32)"
    show "bit x n \<longleftrightarrow> bit y n"
    proof (cases "n < 24")
      case True
      have "bit (take_bit 24 x) n = bit (take_bit 24 y) n" by (simp only: b)
      with True show ?thesis by (simp add: bit_simps)
    next
      case False
      have "bit (drop_bit 24 x) (n - 24) = bit (drop_bit 24 y) (n - 24)" by (simp only: a)
      with False show ?thesis by (simp add: bit_simps)
    qed
  qed
qed

section \<open>The batch computes the per-pixel rule in every lane\<close>

text \<open>
  The lane-wise arithmetic of lines 77 to 85 of \<^verbatim>\<open>KoClipMaskApplicator.h\<close> is the per-pixel
  rule of the specification, applied to each pair of lanes.
\<close>

lemma vector_batch_Cons:
  "vector_batch (s # shapeData) (m # maskData) = luminancePixel s m # vector_batch shapeData maskData"
  using sint_channel [of 0 m]
  by (simp add: vector_batch_def luminancePixel_def newImageAlpha_def maskLuma_def sint_channel sint_alpha
      colorChannelsMask_def)

lemma vector_batch_Nil: "vector_batch [] maskData = []" "vector_batch shapeData [] = []"
  by (simp_all add: vector_batch_def)

lemma vector_batch_eq: "vector_batch shapeData maskData = map2 luminancePixel shapeData maskData"
  by (induction shapeData maskData rule: list_induct2') (simp_all add: vector_batch_Cons vector_batch_Nil)

section \<open>Both loops, on buffers that hold the pixels they are asked for\<close>

text \<open>
  With the cursors at the pixels \<open>a\<close> and \<open>b\<close>, a batch replaces \<open>W\<close> pixels and a fallback
  step one; the loops return when the buffers hold every pixel they reach, and so does the
  call, for any count: a negative \<open>nPixels\<close> gives a non-positive \<^verbatim>\<open>block\<close> and \<^verbatim>\<open>block2\<close> and
  nothing is touched.
\<close>

lemma length_masked: "length (masked img msk a b n) = length img"
  by (simp add: masked_def)

lemma nth_masked:
  "j < length img \<Longrightarrow> masked img msk a b n ! j =
     (if a \<le> j \<and> j < a + n then luminancePixel (img ! j) (msk ! (j - a + b)) else img ! j)"
  by (simp add: masked_def)

lemma masked_0: "masked img msk a b 0 = img"
  by (rule nth_equalityI) (auto simp add: length_masked nth_masked)

lemma masked_masked:
  "masked (masked img msk a b n) msk (a + n) (b + n) n' = masked img msk a b (n + n')"
  by (rule nth_equalityI) (auto simp add: length_masked nth_masked)

lemma store_batch_masked:
  assumes "a + W \<le> length img" "b + W \<le> length msk"
  shows "store_unaligned (vector_batch (take W (drop a img)) (take W (drop b msk))) img (4 * a)
           = masked img msk a b W"
proof (rule nth_equalityI)
  show "length (store_unaligned (vector_batch (take W (drop a img)) (take W (drop b msk))) img (4 * a))
          = length (masked img msk a b W)"
    using assms by (simp add: store_unaligned_def vector_batch_eq length_masked)
next
  fix j
  assume "j < length (store_unaligned (vector_batch (take W (drop a img)) (take W (drop b msk))) img (4 * a))"
  then have j: "j < length img"
    using assms by (simp add: store_unaligned_def vector_batch_eq)
  show "store_unaligned (vector_batch (take W (drop a img)) (take W (drop b msk))) img (4 * a) ! j
          = masked img msk a b W ! j"
    using assms j
    by (auto simp add: store_unaligned_def vector_batch_eq nth_masked nth_append add.commute)
qed

lemma vector_step_masked:
  assumes "a + W \<le> length img" "b + W \<le> length msk"
  shows "vector_step W \<lparr>imageBuf = img, maskBuf = msk, pixels = 4 * a, maskPixels = 4 * b\<rparr>
           = Some \<lparr>imageBuf = masked img msk a b W, maskBuf = msk,
                   pixels = 4 * (a + W), maskPixels = 4 * (b + W)\<rparr>"
  using assms
  by (simp add: vector_step_def load_unaligned_def store_batch_masked vectorPixelStride_def)

lemma fallback_step_masked:
  assumes "a < length img" "b < length msk"
  shows "fallback_step \<lparr>imageBuf = img, maskBuf = msk, pixels = 4 * a, maskPixels = 4 * b\<rparr>
           = Some \<lparr>imageBuf = masked img msk a b 1, maskBuf = msk,
                   pixels = 4 * (a + 1), maskPixels = 4 * (b + 1)\<rparr>"
proof -
  have "img[a := luminancePixel (img ! a) (msk ! b)] ! j = masked img msk a b 1 ! j"
    if "j < length img" for j
  proof (cases "j = a")
    case True
    with that show ?thesis by (simp add: nth_masked)
  next
    case False
    with that show ?thesis by (auto simp add: nth_masked)
  qed
  then have "img[a := luminancePixel (img ! a) (msk ! b)] = masked img msk a b 1"
    by (intro nth_equalityI) (simp_all add: length_masked)
  then show ?thesis
    using assms by (simp add: fallback_step_def)
qed

lemma vector_loop_masked:
  assumes "a + W * nat (block - i) \<le> length img" "b + W * nat (block - i) \<le> length msk"
  shows "vector_loop W block i \<lparr>imageBuf = img, maskBuf = msk, pixels = 4 * a, maskPixels = 4 * b\<rparr>
           = Some \<lparr>imageBuf = masked img msk a b (W * nat (block - i)), maskBuf = msk,
                   pixels = 4 * (a + W * nat (block - i)),
                   maskPixels = 4 * (b + W * nat (block - i))\<rparr>"
  using assms
proof (induction "nat (block - i)" arbitrary: i img a b)
  case 0
  then have "\<not> i < block" by simp
  with 0 show ?case by (simp add: vector_loop.simps [of W block i] masked_0)
next
  case (Suc k)
  then have lt: "i < block" and k: "k = nat (block - (i + 1))"
    and n: "nat (block - i) = Suc (nat (block - (i + 1)))" by simp_all
  have bounds: "a + W \<le> length img" "b + W \<le> length msk"
    using Suc.prems n by simp_all
  have rest: "a + W + W * nat (block - (i + 1)) \<le> length (masked img msk a b W)"
    "b + W + W * nat (block - (i + 1)) \<le> length msk"
    using Suc.prems n by (simp_all add: length_masked)
  have "vector_loop W block i \<lparr>imageBuf = img, maskBuf = msk, pixels = 4 * a, maskPixels = 4 * b\<rparr>
     = vector_loop W block (i + 1) \<lparr>imageBuf = masked img msk a b W, maskBuf = msk,
          pixels = 4 * (a + W), maskPixels = 4 * (b + W)\<rparr>"
    using lt by (simp add: vector_loop.simps [of W block i] vector_step_masked [OF bounds])
  also have "\<dots> = Some \<lparr>imageBuf = masked (masked img msk a b W) msk (a + W) (b + W)
                               (W * nat (block - (i + 1))), maskBuf = msk,
                   pixels = 4 * (a + W + W * nat (block - (i + 1))),
                   maskPixels = 4 * (b + W + W * nat (block - (i + 1)))\<rparr>"
    by (rule Suc.hyps(1) [OF k rest])
  finally show ?case
    by (simp add: masked_masked n add.assoc)
qed

lemma fallback_loop_masked:
  assumes "a + nat (n - i) \<le> length img" "b + nat (n - i) \<le> length msk"
  shows "fallback_loop n i \<lparr>imageBuf = img, maskBuf = msk, pixels = 4 * a, maskPixels = 4 * b\<rparr>
           = Some \<lparr>imageBuf = masked img msk a b (nat (n - i)), maskBuf = msk,
                   pixels = 4 * (a + nat (n - i)), maskPixels = 4 * (b + nat (n - i))\<rparr>"
  using assms
proof (induction "nat (n - i)" arbitrary: i img a b)
  case 0
  then have "\<not> i < n" by simp
  with 0 show ?case by (simp add: fallback_loop.simps [of n i] masked_0)
next
  case (Suc k)
  then have lt: "i < n" and k: "k = nat (n - (i + 1))"
    and n: "nat (n - i) = Suc (nat (n - (i + 1)))" by simp_all
  have bounds: "a < length img" "b < length msk"
    using Suc.prems n by simp_all
  have rest: "a + 1 + nat (n - (i + 1)) \<le> length (masked img msk a b 1)"
    "b + 1 + nat (n - (i + 1)) \<le> length msk"
    using Suc.prems n by (simp_all add: length_masked)
  have "fallback_loop n i \<lparr>imageBuf = img, maskBuf = msk, pixels = 4 * a, maskPixels = 4 * b\<rparr>
     = fallback_loop n (i + 1) \<lparr>imageBuf = masked img msk a b 1, maskBuf = msk,
          pixels = 4 * (a + 1), maskPixels = 4 * (b + 1)\<rparr>"
    using lt by (simp add: fallback_loop.simps [of n i] fallback_step_masked [OF bounds])
  also have "\<dots> = Some \<lparr>imageBuf = masked (masked img msk a b 1) msk (a + 1) (b + 1)
                               (nat (n - (i + 1))), maskBuf = msk,
                   pixels = 4 * (a + 1 + nat (n - (i + 1))),
                   maskPixels = 4 * (b + 1 + nat (n - (i + 1)))\<rparr>"
    by (rule Suc.hyps(1) [OF k rest])
  finally show ?case
    using masked_masked [of img msk a b 1 "nat (n - (i + 1))"] by (simp add: n)
qed

lemma fallbackLuminanceMask_masked:
  assumes "a + nat n \<le> length img" "b + nat n \<le> length msk"
  shows "fallbackLuminanceMask img msk (4 * a) (4 * b) n = Some (masked img msk a b (nat n), msk)"
  using fallback_loop_masked [of a n 0 img b msk] assms
  by (simp add: fallbackLuminanceMask_def)

lemma sdiv_smod_nonneg:
  "0 \<le> n \<Longrightarrow> n sdiv int W = n div int W" "0 \<le> n \<Longrightarrow> n smod int W = n mod int W"
  by (simp_all add: signed_divide_int_def signed_modulo_int_def sgn_if)

lemma mod_int_nat_nonneg: "0 \<le> k \<Longrightarrow> 0 \<le> k mod int W"
  by (cases "W = 0") simp_all

lemma sdiv_smod_neg:
  "n \<le> 0 \<Longrightarrow> n sdiv int W \<le> 0" "n \<le> 0 \<Longrightarrow> n smod int W \<le> 0"
  using mod_int_nat_nonneg [of "- n" W]
  by (simp_all add: signed_divide_int_def signed_modulo_int_def sgn_if pos_imp_zdiv_nonneg_iff)

lemma batches_split:
  "0 \<le> n \<Longrightarrow> W * nat (n div int W) + nat (n mod int W) = nat n"
proof -
  assume n: "0 \<le> n"
  have "int (W * nat (n div int W) + nat (n mod int W)) = int W * (n div int W) + n mod int W"
    using n mod_int_nat_nonneg [of n W] by (simp add: pos_imp_zdiv_nonneg_iff div_int_pos_iff)
  also have "\<dots> = n" by simp
  finally show ?thesis by linarith
qed

lemma applyLuminanceMask_masked:
  assumes "a + nat n \<le> length img" "b + nat n \<le> length msk"
  shows "applyLuminanceMask W img msk (4 * a) (4 * b) n = Some (masked img msk a b (nat n), msk)"
proof (cases "0 \<le> n")
  case True
  let ?k = "nat (n div int W)" and ?r = "n mod int W"
  have split: "W * ?k + nat ?r = nat n" using True by (rule batches_split)
  have vb: "a + W * nat (n div int W - 0) \<le> length img" "b + W * nat (n div int W - 0) \<le> length msk"
    using assms split by simp_all
  have fb: "a + W * ?k + nat ?r \<le> length (masked img msk a b (W * ?k))" "b + W * ?k + nat ?r \<le> length msk"
    using assms split by (simp_all add: length_masked)
  show ?thesis
    using True vector_loop_masked [OF vb] fallbackLuminanceMask_masked [OF fb]
    by (simp add: applyLuminanceMask_def applyLuminanceMask_with_def sdiv_smod_nonneg masked_masked split)
next
  case False
  then have n: "n \<le> 0" by simp
  have b: "nat (n sdiv int W - 0) = 0" "nat (n smod int W) = 0"
    using sdiv_smod_neg [OF n, of W] by simp_all
  have "vector_loop W (n sdiv int W) 0 \<lparr>imageBuf = img, maskBuf = msk, pixels = 4 * a, maskPixels = 4 * b\<rparr>
     = Some \<lparr>imageBuf = img, maskBuf = msk, pixels = 4 * a, maskPixels = 4 * b\<rparr>"
    using sdiv_smod_neg(1) [OF n, of W] by (simp add: vector_loop.simps [of W "n sdiv int W" 0])
  moreover have "fallbackLuminanceMask img msk (4 * a) (4 * b) (n smod int W) = Some (img, msk)"
    using fallbackLuminanceMask_masked [of a "n smod int W" img b msk] b assms by (simp add: masked_0)
  ultimately show ?thesis
    using n by (simp add: applyLuminanceMask_def applyLuminanceMask_with_def masked_0)
qed

section \<open>What any returning call preserves\<close>

text \<open>
  A step that returns has found its pixels in the buffers, so it is one of the steps
  above: it leaves the mask and the low 24 bits of every image pixel alone. So does any
  run of either loop that returns, by induction along the loop.
\<close>

lemma same_rgb_refl: "same_rgb img img"
  by (simp add: same_rgb_def list_all2_refl)

lemma same_rgb_trans: "same_rgb a b \<Longrightarrow> same_rgb b c \<Longrightarrow> same_rgb a c"
  by (simp add: same_rgb_def list_all2_conv_all_nth)

lemma same_rgb_masked: "same_rgb img (masked img msk a b n)"
  by (simp add: same_rgb_def list_all2_conv_all_nth length_masked nth_masked luminancePixel_rgb)

lemma same_rgb_nth:
  "same_rgb img img' \<Longrightarrow> length img' = length img \<and> (\<forall>j<length img. img' ! j AND 0x00FFFFFF = img ! j AND 0x00FFFFFF)"
  by (simp add: same_rgb_def list_all2_conv_all_nth)


lemma vector_step_Some:
  assumes "vector_step W st = Some st'"
  shows "maskBuf st' = maskBuf st \<and> same_rgb (imageBuf st) (imageBuf st')"
proof -
  define a b where "a = pixels st div 4" and "b = maskPixels st div 4"
  have "4 dvd pixels st \<and> 4 dvd maskPixels st \<and>
      pixels st div 4 + W \<le> length (imageBuf st) \<and> maskPixels st div 4 + W \<le> length (maskBuf st)"
    using assms by (simp add: vector_step_def load_unaligned_def split: if_splits option.splits)
  then have ab: "pixels st = 4 * a" "maskPixels st = 4 * b"
    "a + W \<le> length (imageBuf st)" "b + W \<le> length (maskBuf st)"
    by (simp_all add: a_def b_def)
  have "st = \<lparr>imageBuf = imageBuf st, maskBuf = maskBuf st, pixels = 4 * a, maskPixels = 4 * b\<rparr>"
    by (simp add: ab(1,2) [symmetric])
  then have "vector_step W st = Some \<lparr>imageBuf = masked (imageBuf st) (maskBuf st) a b W,
      maskBuf = maskBuf st, pixels = 4 * (a + W), maskPixels = 4 * (b + W)\<rparr>"
    using vector_step_masked [OF ab(3,4)] by simp
  with assms show ?thesis by (auto simp add: same_rgb_masked)
qed

lemma fallback_step_Some:
  assumes "fallback_step st = Some st'"
  shows "maskBuf st' = maskBuf st \<and> same_rgb (imageBuf st) (imageBuf st')"
proof -
  define a b where "a = pixels st div 4" and "b = maskPixels st div 4"
  have "4 dvd pixels st \<and> 4 dvd maskPixels st \<and>
      pixels st div 4 < length (imageBuf st) \<and> maskPixels st div 4 < length (maskBuf st)"
    using assms by (simp add: fallback_step_def split: if_splits)
  then have ab: "pixels st = 4 * a" "maskPixels st = 4 * b"
    "a < length (imageBuf st)" "b < length (maskBuf st)"
    by (simp_all add: a_def b_def)
  have "st = \<lparr>imageBuf = imageBuf st, maskBuf = maskBuf st, pixels = 4 * a, maskPixels = 4 * b\<rparr>"
    by (simp add: ab(1,2) [symmetric])
  then have "fallback_step st = Some \<lparr>imageBuf = masked (imageBuf st) (maskBuf st) a b 1,
      maskBuf = maskBuf st, pixels = 4 * (a + 1), maskPixels = 4 * (b + 1)\<rparr>"
    using fallback_step_masked [OF ab(3,4)] by simp
  with assms show ?thesis by (auto simp add: same_rgb_masked)
qed

lemma vector_loop_Some:
  "vector_loop W block i st = Some st' \<Longrightarrow>
     maskBuf st' = maskBuf st \<and> same_rgb (imageBuf st) (imageBuf st')"
proof (induction W block i st rule: vector_loop.induct)
  case (1 W block i st)
  show ?case
  proof (cases "i < block")
    case False
    with "1.prems" show ?thesis by (simp add: vector_loop.simps [of W block i st] same_rgb_refl)
  next
    case True
    with "1.prems" obtain st1 where s: "vector_step W st = Some st1"
      and l: "vector_loop W block (i + 1) st1 = Some st'"
      by (simp add: vector_loop.simps [of W block i st] split: option.splits)
    from "1.IH" [OF True s l] vector_step_Some [OF s] show ?thesis
      by (auto intro: same_rgb_trans)
  qed
qed

lemma fallback_loop_Some:
  "fallback_loop n i st = Some st' \<Longrightarrow>
     maskBuf st' = maskBuf st \<and> same_rgb (imageBuf st) (imageBuf st')"
proof (induction n i st rule: fallback_loop.induct)
  case (1 n i st)
  show ?case
  proof (cases "i < n")
    case False
    with "1.prems" show ?thesis by (simp add: fallback_loop.simps [of n i st] same_rgb_refl)
  next
    case True
    with "1.prems" obtain st1 where s: "fallback_step st = Some st1"
      and l: "fallback_loop n (i + 1) st1 = Some st'"
      by (simp add: fallback_loop.simps [of n i st] split: option.splits)
    from "1.IH" [OF True s l] fallback_step_Some [OF s] show ?thesis
      by (auto intro: same_rgb_trans)
  qed
qed

lemma fallbackLuminanceMask_Some:
  assumes "fallbackLuminanceMask img msk p mp n = Some (img', msk')"
  shows "msk' = msk \<and> same_rgb img img'"
  using assms fallback_loop_Some [of n 0 "\<lparr>imageBuf = img, maskBuf = msk, pixels = p, maskPixels = mp\<rparr>"]
  by (auto simp add: fallbackLuminanceMask_def)

lemma applyLuminanceMask_Some:
  assumes "applyLuminanceMask W img msk p mp n = Some (img', msk')"
  shows "msk' = msk \<and> same_rgb img img'"
proof -
  obtain st where v: "vector_loop W (n sdiv int W) 0
      \<lparr>imageBuf = img, maskBuf = msk, pixels = p, maskPixels = mp\<rparr> = Some st"
    and f: "fallbackLuminanceMask (imageBuf st) (maskBuf st) (pixels st) (maskPixels st) (n smod int W)
      = Some (img', msk')"
    using assms by (auto simp add: applyLuminanceMask_def applyLuminanceMask_with_def split: option.splits)
  from vector_loop_Some [OF v] fallbackLuminanceMask_Some [OF f] show ?thesis
    by (auto intro: same_rgb_trans)
qed

section \<open>The zero and the full-white mask pixel\<close>

text \<open>
  A mask alpha of 0 converts to the float 0, and a product with a zero factor is 0
  whatever the other factor.
\<close>

lemma rne_div_0: "0 < b \<Longrightarrow> rne_div 0 b = 0"
  by (simp add: rne_div_def)

lemma mant_f32_round_0: "mant (f32_round 0 e) = 0"
  by (simp add: f32_round_def Let_def rne_div_0)

lemma mant_fmul_0: "mant a = 0 \<or> mant b = 0 \<Longrightarrow> mant (fmul a b) = 0"
  by (auto simp add: fmul_def mant_f32_round_0)

lemma nearbyint_as_int_0: "mant x = 0 \<Longrightarrow> nearbyint_as_int x = 0"
  by (simp add: nearbyint_as_int_def rne_div_0)

lemma newImageAlpha_mask_alpha_0: "channel 24 m = 0 \<Longrightarrow> newImageAlpha s m = 0"
  by (simp add: newImageAlpha_def maskLuma_def to_float_def mant_f32_round_0 mant_fmul_0
      nearbyint_as_int_0)

text \<open>
  Under the mask pixel \<open>0xFFFFFFFF\<close> the three weighted channels add up to 255 without
  rounding error, so that \<open>maskLuma\<close> is 65025; each of the 256 image alphas is then
  multiplied exactly.
\<close>

lemma maskLuma_white: "maskLuma 0xFFFFFFFF = F32 16646400 (- 8)"
  by code_simp

lemma white_products:
  "\<forall>a \<in> set [0..255]. nearbyint_as_int (fmul (to_float a) (F32 16646400 (- 8))) = 65025 * a"
  by code_simp

lemma channel_range: "channel k w \<in> set [0..255]"
  using uint_and_ff [of "drop_bit k w"] by (simp add: channel_def)

lemma newImageAlpha_white: "newImageAlpha s 0xFFFFFFFF = 65025 * channel 24 s"
  using white_products channel_range [of 24 s]
  by (simp only: newImageAlpha_def maskLuma_white)

lemma luminancePixel_white: "luminancePixel s 0xFFFFFFFF = s"
proof (rule pixel_eqI)
  show "luminancePixel s 0xFFFFFFFF AND 0x00FFFFFF = s AND 0x00FFFFFF"
    by (rule luminancePixel_rgb)
  have "channel 24 (luminancePixel s 0xFFFFFFFF) = (65025 * channel 24 s) mod 256"
    by (simp only: luminancePixel_alpha newImageAlpha_white)
  also have "\<dots> = channel 24 s mod 256"
    by (rule mod_mult_cong [of 65025 256 1 "channel 24 s" "channel 24 s", simplified])
  also have "\<dots> = channel 24 s"
    using channel_range [of 24 s] by simp
  finally show "channel 24 (luminancePixel s 0xFFFFFFFF) = channel 24 s" .
qed

section \<open>The rounded product fits a signed 32-bit lane\<close>

text \<open>
  Rounding a non-negative number at most doubles it. With the weights below \<open>1/4\<close>, \<open>3/4\<close>
  and \<open>1/8\<close> and every channel at most 255, this crude bound keeps the integer that
  \<^verbatim>\<open>nearbyint_as_int\<close> returns within \<open>[0, 2 ^ 31)\<close>.
\<close>

lemma rne_div_bounds:
  assumes "0 \<le> m" "0 < d"
  shows "0 \<le> rne_div m d \<and> rne_div m d * d \<le> 2 * m"
proof -
  define q r where "q = m div d" and "r = m mod d"
  have m: "m = q * d + r" and r: "0 \<le> r" "r < d" and q: "0 \<le> q"
    using assms by (simp_all add: q_def r_def pos_imp_zdiv_nonneg_iff)
  have qd: "0 \<le> q * d" "0 \<le> d * q" using q assms(2) by simp_all
  show ?thesis
  proof (cases "d < 2 * r \<or> (2 * r = d \<and> odd q)")
    case True
    then have "rne_div m d = q + 1" by (simp add: rne_div_def q_def r_def Let_def)
    moreover have "(q + 1) * d \<le> 2 * m"
      using True qd by (auto simp add: m algebra_simps)
    ultimately show ?thesis using q by simp
  next
    case False
    then have "rne_div m d = q" by (simp add: rne_div_def q_def r_def Let_def)
    moreover have "q * d \<le> 2 * m" using qd r by (simp add: m)
    ultimately show ?thesis using q by simp
  qed
qed

lemma f32_round_bounds:
  assumes "0 \<le> m"
  shows "0 \<le> mant (f32_round m e) \<and> f32_value (f32_round m e) \<le> 2 * (of_int m * 2 powi e)"
proof -
  define s where "s = max (bitlen \<bar>m\<bar> - 24) (- 149 - e)"
  have p: "(0 :: rat) \<le> 2 powi e" by simp
  have fr: "f32_round m e = (if s \<le> 0 then F32 m e else F32 (rne_div m (2 ^ nat s)) (e + s))"
    by (simp only: f32_round_def s_def Let_def)
  show ?thesis
  proof (cases "s \<le> 0")
    case True
    then have "f32_round m e = F32 m e" by (simp add: fr)
    moreover have "of_int m * 2 powi e \<le> 2 * (of_int m * 2 powi e :: rat)"
      using assms p by (simp add: mult_nonneg_nonneg)
    ultimately show ?thesis using assms by (simp add: f32_value_def)
  next
    case False
    then have r: "f32_round m e = F32 (rne_div m (2 ^ nat s)) (e + s)"
      by (simp add: fr)
    have b: "0 \<le> rne_div m (2 ^ nat s)" "rne_div m (2 ^ nat s) * 2 ^ nat s \<le> 2 * m"
      using rne_div_bounds [OF assms, of "2 ^ nat s"] by simp_all
    have "(2 :: rat) powi (e + s) = 2 powi e * 2 powi s"
      by (simp add: power_int_add)
    also have "(2 :: rat) powi s = 2 ^ nat s"
      using False by (simp add: power_int_def)
    finally have "f32_value (f32_round m e) = of_int (rne_div m (2 ^ nat s) * 2 ^ nat s) * 2 powi e"
      by (simp add: r f32_value_def)
    also have "\<dots> \<le> of_int (2 * m) * 2 powi e"
      using b(2) p by (intro mult_right_mono) (simp_all only: of_int_le_iff)
    finally show ?thesis using b(1) by (simp add: r)
  qed
qed

lemma f32_value_nonneg: "0 \<le> mant x \<Longrightarrow> 0 \<le> f32_value x"
  by (simp add: f32_value_def)

lemma fmul_bounds:
  assumes "0 \<le> mant a" "0 \<le> mant b" "f32_value a \<le> A" "f32_value b \<le> B"
  shows "0 \<le> mant (fmul a b) \<and> f32_value (fmul a b) \<le> 2 * (A * B)"
proof -
  have m: "0 \<le> mant a * mant b" using assms(1,2) by simp
  have "of_int (mant a * mant b) * 2 powi (expo a + expo b) = f32_value a * f32_value b"
    by (simp add: f32_value_def power_int_add)
  also have "\<dots> \<le> A * B"
    using assms by (intro mult_mono) (simp_all add: f32_value_nonneg order_trans [OF f32_value_nonneg])
  finally show ?thesis
    using f32_round_bounds [OF m, of "expo a + expo b"] by (simp add: fmul_def)
qed

lemma fadd_bounds:
  assumes "0 \<le> mant a" "0 \<le> mant b" "f32_value a \<le> A" "f32_value b \<le> B"
  shows "0 \<le> mant (fadd a b) \<and> f32_value (fadd a b) \<le> 2 * (A + B)"
proof -
  define e where "e = min (expo a) (expo b)"
  let ?m = "mant a * 2 ^ nat (expo a - e) + mant b * 2 ^ nat (expo b - e)"
  have m: "0 \<le> ?m" using assms(1,2) by simp
  have sh: "(2 :: rat) ^ nat (k - e) * 2 powi e = 2 powi k" if "e \<le> k" for k
  proof -
    have "(2 :: rat) ^ nat (k - e) = 2 powi (k - e)" using that by (simp add: power_int_def)
    then show ?thesis by (simp add: power_int_add [symmetric])
  qed
  have "of_int ?m * 2 powi e = f32_value a + f32_value b"
    using sh [of "expo a"] sh [of "expo b"]
    by (simp add: f32_value_def e_def algebra_simps)
  also have "\<dots> \<le> A + B" using assms(3,4) by simp
  finally show ?thesis
    using f32_round_bounds [OF m, of e] by (simp add: fadd_def e_def Let_def)
qed

lemma to_float_small:
  assumes "0 \<le> n" "n < 256"
  shows "to_float n = F32 n 0"
proof -
  have "bitlen \<bar>n\<bar> \<le> 24"
    using assms by (simp add: bitlen_le_iff_power)
  then show ?thesis by (simp add: to_float_def f32_round_def)
qed

lemma nearbyint_as_int_bounds:
  assumes "0 \<le> mant x"
  shows "0 \<le> nearbyint_as_int x \<and> of_int (nearbyint_as_int x) \<le> 2 * f32_value x"
proof (cases "0 \<le> expo x")
  case True
  then have "of_int (nearbyint_as_int x) = f32_value x"
    by (simp add: nearbyint_as_int_def f32_value_def power_int_def)
  then show ?thesis
    using assms True f32_value_nonneg [OF assms] by (simp add: nearbyint_as_int_def)
next
  case False
  let ?d = "2 ^ nat (- expo x) :: int"
  have b: "0 \<le> rne_div (mant x) ?d" "rne_div (mant x) ?d * ?d \<le> 2 * mant x"
    using rne_div_bounds [OF assms, of ?d] by simp_all
  have v: "f32_value x = of_int (mant x) / of_int ?d"
    using False by (simp add: f32_value_def power_int_def field_simps)
  have "(of_int (rne_div (mant x) ?d) :: rat) * of_int ?d \<le> of_int (2 * mant x)"
    using b(2) by (simp only: of_int_mult [symmetric] of_int_le_iff)
  then have "(of_int (rne_div (mant x) ?d) :: rat) \<le> 2 * f32_value x"
    by (simp add: v field_simps)
  then show ?thesis
    using b(1) False by (simp add: nearbyint_as_int_def)
qed

lemma lum_constants:
  "0 \<le> mant redLum" "f32_value redLum \<le> 1 / 4"
  "0 \<le> mant greenLum" "f32_value greenLum \<le> 3 / 4"
  "0 \<le> mant blueLum" "f32_value blueLum \<le> 1 / 8"
  by (simp_all add: redLum_def greenLum_def blueLum_def f32_value_def power_int_def power_divide)

lemma to_float_channel:
  "0 \<le> mant (to_float (channel k w))" "f32_value (to_float (channel k w)) \<le> 255"
proof -
  have c: "0 \<le> channel k w" "channel k w < 256"
    using channel_range [of k w] by simp_all
  then have "to_float (channel k w) = F32 (channel k w) 0"
    by (rule to_float_small)
  with c show "0 \<le> mant (to_float (channel k w))" "f32_value (to_float (channel k w)) \<le> 255"
    by (simp_all add: f32_value_def)
qed

lemma maskLuma_bounds: "0 \<le> mant (maskLuma m) \<and> f32_value (maskLuma m) \<le> 1105425"
proof -
  note c = to_float_channel
  note r = fmul_bounds [OF lum_constants(1) c(1) [of 16 m] lum_constants(2) c(2)]
  note g = fmul_bounds [OF lum_constants(3) c(1) [of 8 m] lum_constants(4) c(2)]
  note b = fmul_bounds [OF lum_constants(5) c(1) [of 0 m] lum_constants(6) c(2)]
  note rg = fadd_bounds [OF conjunct1 [OF r] conjunct1 [OF g] conjunct2 [OF r] conjunct2 [OF g]]
  note l = fadd_bounds [OF conjunct1 [OF rg] conjunct1 [OF b] conjunct2 [OF rg] conjunct2 [OF b]]
  note v = fmul_bounds [OF c(1) [of 24 m] conjunct1 [OF l] c(2) conjunct2 [OF l]]
  from v show ?thesis by (simp add: maskLuma_def)
qed

lemma newImageAlpha_range: "0 \<le> newImageAlpha s m \<and> newImageAlpha s m < 2 ^ 31"
proof -
  note v = maskLuma_bounds [of m]
  note p = fmul_bounds [OF to_float_channel(1) [of 24 s] conjunct1 [OF v]
      to_float_channel(2) conjunct2 [OF v]]
  note n = nearbyint_as_int_bounds [OF conjunct1 [OF p]]
  have "(of_int (newImageAlpha s m) :: rat) \<le> 2 * (2 * (255 * 1105425))"
    using n p by (simp add: newImageAlpha_def)
  also have "\<dots> < of_int (2 ^ 31)" by simp
  finally have "newImageAlpha s m < 2 ^ 31" by (simp only: of_int_less_iff)
  with n show ?thesis by (simp add: newImageAlpha_def)
qed

text \<open>
  The three weights are the binary32 values nearest to 0.2125, 0.7154 and 0.0721: each is
  within half a unit in the last place of its decimal, and each takes at most 24 bits.
\<close>

lemma lum_constants_nearest:
  "\<bar>f32_value redLum - 2125 / 10000\<bar> \<le> 1 / 2 ^ 27"
  "\<bar>f32_value greenLum - 7154 / 10000\<bar> \<le> 1 / 2 ^ 25"
  "\<bar>f32_value blueLum - 721 / 10000\<bar> \<le> 1 / 2 ^ 28"
  by (simp_all add: redLum_def greenLum_def blueLum_def f32_value_def power_int_def power_divide)

lemma lum_constants_representable:
  "f32_round (mant redLum) (expo redLum) = redLum"
  "f32_round (mant greenLum) (expo greenLum) = greenLum"
  "f32_round (mant blueLum) (expo blueLum) = blueLum"
  by code_simp+

section \<open>The one memory: what a call can change, and two arrays apart\<close>

text \<open>
  A batch stores \<open>W\<close> pixels at the image cursor and a fallback step one, so a call on
  ranges that lie in the memory returns and changes nothing outside the \<open>nPixels\<close> pixels
  from the image pointer on, wherever the mask pointer is.
\<close>

lemma kept_outside_refl: "kept_outside m m a 0"
  by (simp add: kept_outside_def)

lemma kept_outside_trans:
  "kept_outside m m1 a k \<Longrightarrow> kept_outside m1 m2 (a + k) k' \<Longrightarrow> kept_outside m m2 a (k + k')"
  by (auto simp add: kept_outside_def)

lemma store_kept_outside:
  assumes "a + length v \<le> length m"
  shows "kept_outside m (store_unaligned v m (4 * a)) a (length v)"
  using assms by (auto simp add: kept_outside_def store_unaligned_def nth_append)

lemma vector_step_shared_frame:
  assumes "a + W \<le> length m" "b + W \<le> length m"
  shows "\<exists>m'. vector_step_shared W \<lparr>memory = m, pixelsAt = 4 * a, maskPixelsAt = 4 * b\<rparr>
           = Some \<lparr>memory = m', pixelsAt = 4 * (a + W), maskPixelsAt = 4 * (b + W)\<rparr> \<and>
         kept_outside m m' a W"
proof -
  let ?v = "vector_batch (take W (drop a m)) (take W (drop b m))"
  have len: "length ?v = W" using assms by (simp add: vector_batch_eq)
  have "kept_outside m (store_unaligned ?v m (4 * a)) a (length ?v)"
    using assms by (intro store_kept_outside) (simp add: len)
  then show ?thesis
    using assms by (simp add: vector_step_shared_def load_unaligned_def vectorPixelStride_def len)
qed

lemma fallback_step_shared_frame:
  assumes "a < length m" "b < length m"
  shows "\<exists>m'. fallback_step_shared \<lparr>memory = m, pixelsAt = 4 * a, maskPixelsAt = 4 * b\<rparr>
           = Some \<lparr>memory = m', pixelsAt = 4 * (a + 1), maskPixelsAt = 4 * (b + 1)\<rparr> \<and>
         kept_outside m m' a 1"
  using assms by (auto simp add: fallback_step_shared_def kept_outside_def nth_list_update)

lemma vector_loop_shared_frame:
  assumes "a + W * nat (block - i) \<le> length m" "b + W * nat (block - i) \<le> length m"
  shows "\<exists>m'. vector_loop_shared W block i \<lparr>memory = m, pixelsAt = 4 * a, maskPixelsAt = 4 * b\<rparr>
           = Some \<lparr>memory = m', pixelsAt = 4 * (a + W * nat (block - i)),
                   maskPixelsAt = 4 * (b + W * nat (block - i))\<rparr> \<and>
         kept_outside m m' a (W * nat (block - i))"
  using assms
proof (induction "nat (block - i)" arbitrary: i m a b)
  case 0
  then have "\<not> i < block" by simp
  with 0 show ?case
    by (simp add: vector_loop_shared.simps [of W block i] kept_outside_refl)
next
  case (Suc k)
  then have lt: "i < block" and k: "k = nat (block - (i + 1))"
    and n: "nat (block - i) = Suc (nat (block - (i + 1)))" by simp_all
  have bounds: "a + W \<le> length m" "b + W \<le> length m"
    using Suc.prems n by simp_all
  from vector_step_shared_frame [OF bounds] obtain m1 where
    s: "vector_step_shared W \<lparr>memory = m, pixelsAt = 4 * a, maskPixelsAt = 4 * b\<rparr>
           = Some \<lparr>memory = m1, pixelsAt = 4 * (a + W), maskPixelsAt = 4 * (b + W)\<rparr>"
    and f1: "kept_outside m m1 a W" by blast
  have len: "length m1 = length m" using f1 by (simp add: kept_outside_def)
  have rest: "a + W + W * nat (block - (i + 1)) \<le> length m1"
    "b + W + W * nat (block - (i + 1)) \<le> length m1"
    using Suc.prems n by (simp_all add: len)
  from Suc.hyps(1) [OF k rest] obtain m2 where
    l: "vector_loop_shared W block (i + 1) \<lparr>memory = m1, pixelsAt = 4 * (a + W), maskPixelsAt = 4 * (b + W)\<rparr>
          = Some \<lparr>memory = m2, pixelsAt = 4 * (a + W + W * nat (block - (i + 1))),
                  maskPixelsAt = 4 * (b + W + W * nat (block - (i + 1)))\<rparr>"
    and f2: "kept_outside m1 m2 (a + W) (W * nat (block - (i + 1)))" by blast
  have "vector_loop_shared W block i \<lparr>memory = m, pixelsAt = 4 * a, maskPixelsAt = 4 * b\<rparr>
      = Some \<lparr>memory = m2, pixelsAt = 4 * (a + W * nat (block - i)),
              maskPixelsAt = 4 * (b + W * nat (block - i))\<rparr>"
    using lt s l by (simp add: vector_loop_shared.simps [of W block i] n add.assoc)
  moreover have "kept_outside m m2 a (W * nat (block - i))"
    using kept_outside_trans [OF f1 f2] by (simp add: n)
  ultimately show ?case by blast
qed

lemma fallback_loop_shared_frame:
  assumes "a + nat (n - i) \<le> length m" "b + nat (n - i) \<le> length m"
  shows "\<exists>m'. fallback_loop_shared n i \<lparr>memory = m, pixelsAt = 4 * a, maskPixelsAt = 4 * b\<rparr>
           = Some \<lparr>memory = m', pixelsAt = 4 * (a + nat (n - i)),
                   maskPixelsAt = 4 * (b + nat (n - i))\<rparr> \<and>
         kept_outside m m' a (nat (n - i))"
  using assms
proof (induction "nat (n - i)" arbitrary: i m a b)
  case 0
  then have "\<not> i < n" by simp
  with 0 show ?case
    by (simp add: fallback_loop_shared.simps [of n i] kept_outside_refl)
next
  case (Suc k)
  then have lt: "i < n" and k: "k = nat (n - (i + 1))"
    and n: "nat (n - i) = Suc (nat (n - (i + 1)))" by simp_all
  have bounds: "a < length m" "b < length m"
    using Suc.prems n by simp_all
  from fallback_step_shared_frame [OF bounds] obtain m1 where
    s: "fallback_step_shared \<lparr>memory = m, pixelsAt = 4 * a, maskPixelsAt = 4 * b\<rparr>
           = Some \<lparr>memory = m1, pixelsAt = 4 * (a + 1), maskPixelsAt = 4 * (b + 1)\<rparr>"
    and f1: "kept_outside m m1 a 1" by blast
  have len: "length m1 = length m" using f1 by (simp add: kept_outside_def)
  have rest: "a + 1 + nat (n - (i + 1)) \<le> length m1" "b + 1 + nat (n - (i + 1)) \<le> length m1"
    using Suc.prems n by (simp_all add: len)
  from Suc.hyps(1) [OF k rest] obtain m2 where
    l: "fallback_loop_shared n (i + 1) \<lparr>memory = m1, pixelsAt = 4 * (a + 1), maskPixelsAt = 4 * (b + 1)\<rparr>
          = Some \<lparr>memory = m2, pixelsAt = 4 * (a + 1 + nat (n - (i + 1))),
                  maskPixelsAt = 4 * (b + 1 + nat (n - (i + 1)))\<rparr>"
    and f2: "kept_outside m1 m2 (a + 1) (nat (n - (i + 1)))" by blast
  have "fallback_loop_shared n i \<lparr>memory = m, pixelsAt = 4 * a, maskPixelsAt = 4 * b\<rparr>
      = Some \<lparr>memory = m2, pixelsAt = 4 * (a + nat (n - i)), maskPixelsAt = 4 * (b + nat (n - i))\<rparr>"
    using lt s l by (simp add: fallback_loop_shared.simps [of n i] n)
  moreover have "kept_outside m m2 a (nat (n - i))"
    using kept_outside_trans [OF f1 f2] by (simp add: n)
  ultimately show ?case by blast
qed

lemma batches_split_sdiv: "W * nat (n sdiv int W) + nat (n smod int W) = nat n"
proof (cases "0 \<le> n")
  case True
  then show ?thesis using batches_split [OF True, of W] by (simp add: sdiv_smod_nonneg)
next
  case False
  then have "n sdiv int W \<le> 0" "n smod int W \<le> 0" by (simp_all add: sdiv_smod_neg)
  with False show ?thesis by simp
qed

lemma applyLuminanceMask_shared_frame:
  assumes "a + nat n \<le> length mem" "b + nat n \<le> length mem"
  shows "(\<exists>st. vector_loop_shared W (n sdiv int W) 0
                 \<lparr>memory = mem, pixelsAt = 4 * a, maskPixelsAt = 4 * b\<rparr> = Some st \<and>
              kept_outside mem (memory st) a (nat n)) \<and>
         (\<exists>mem'. applyLuminanceMask_shared W mem (4 * a) (4 * b) n = Some mem' \<and>
              kept_outside mem mem' a (nat n))"
proof -
  let ?k = "nat (n sdiv int W)" and ?r = "nat (n smod int W)"
  have split: "W * ?k + ?r = nat n" by (rule batches_split_sdiv)
  have vb: "a + W * nat (n sdiv int W - 0) \<le> length mem" "b + W * nat (n sdiv int W - 0) \<le> length mem"
    using assms split by simp_all
  from vector_loop_shared_frame [OF vb] obtain m1 where
    loop: "vector_loop_shared W (n sdiv int W) 0 \<lparr>memory = mem, pixelsAt = 4 * a, maskPixelsAt = 4 * b\<rparr>
      = Some \<lparr>memory = m1, pixelsAt = 4 * (a + W * ?k), maskPixelsAt = 4 * (b + W * ?k)\<rparr>"
    and f1: "kept_outside mem m1 a (W * ?k)" by auto
  have len: "length m1 = length mem" using f1 by (simp add: kept_outside_def)
  have fb: "a + W * ?k + nat (n smod int W - 0) \<le> length m1"
    "b + W * ?k + nat (n smod int W - 0) \<le> length m1"
    using assms split by (simp_all add: len)
  from fallback_loop_shared_frame [OF fb] obtain m2 where
    tail: "fallback_loop_shared (n smod int W) 0
        \<lparr>memory = m1, pixelsAt = 4 * (a + W * ?k), maskPixelsAt = 4 * (b + W * ?k)\<rparr>
      = Some \<lparr>memory = m2, pixelsAt = 4 * (a + W * ?k + ?r), maskPixelsAt = 4 * (b + W * ?k + ?r)\<rparr>"
    and f2: "kept_outside m1 m2 (a + W * ?k) ?r" by auto
  have f: "kept_outside mem m2 a (nat n)"
    using kept_outside_trans [OF f1 f2] by (simp add: split)
  have wide: "kept_outside mem m1 a (nat n)"
    using f1 split by (auto simp add: kept_outside_def)
  have "applyLuminanceMask_shared W mem (4 * a) (4 * b) n = Some m2"
    using loop tail by (simp add: applyLuminanceMask_shared_def)
  with f loop wide show ?thesis by simp
qed

text \<open>
  With the image and the mask as two arrays side by side in the memory, the call on the
  one memory returns what the call on the two buffers returns: the two-buffer model is
  the case of pointer arguments into separate arrays.
\<close>

lemma vector_step_shared_apart:
  assumes "a + W \<le> length img" "b + W \<le> length msk"
  shows "vector_step_shared W
           \<lparr>memory = img @ msk, pixelsAt = 4 * a, maskPixelsAt = 4 * (length img + b)\<rparr>
         = Some \<lparr>memory = masked img msk a b W @ msk, pixelsAt = 4 * (a + W),
                 maskPixelsAt = 4 * (length img + (b + W))\<rparr>"
proof -
  let ?v = "vector_batch (take W (drop a img)) (take W (drop b msk))"
  have len: "length ?v = W" using assms by (simp add: vector_batch_eq)
  have "store_unaligned ?v (img @ msk) (4 * a) = store_unaligned ?v img (4 * a) @ msk"
    using assms by (simp add: store_unaligned_def len)
  then show ?thesis
    using assms
    by (simp add: vector_step_shared_def load_unaligned_def vectorPixelStride_def
        store_batch_masked)
qed

lemma fallback_step_shared_apart:
  assumes "a < length img" "b < length msk"
  shows "fallback_step_shared
           \<lparr>memory = img @ msk, pixelsAt = 4 * a, maskPixelsAt = 4 * (length img + b)\<rparr>
         = Some \<lparr>memory = masked img msk a b 1 @ msk, pixelsAt = 4 * (a + 1),
                 maskPixelsAt = 4 * (length img + (b + 1))\<rparr>"
proof -
  have "fallback_step \<lparr>imageBuf = img, maskBuf = msk, pixels = 4 * a, maskPixels = 4 * b\<rparr>
      = Some \<lparr>imageBuf = masked img msk a b 1, maskBuf = msk,
              pixels = 4 * (a + 1), maskPixels = 4 * (b + 1)\<rparr>"
    using assms by (rule fallback_step_masked)
  then have "img[a := luminancePixel (img ! a) (msk ! b)] = masked img msk a b 1"
    using assms by (simp add: fallback_step_def)
  then show ?thesis
    using assms by (simp add: fallback_step_shared_def nth_append list_update_append1)
qed

lemma vector_loop_shared_apart:
  assumes "a + W * nat (block - i) \<le> length img" "b + W * nat (block - i) \<le> length msk"
  shows "vector_loop_shared W block i
           \<lparr>memory = img @ msk, pixelsAt = 4 * a, maskPixelsAt = 4 * (length img + b)\<rparr>
         = Some \<lparr>memory = masked img msk a b (W * nat (block - i)) @ msk,
                 pixelsAt = 4 * (a + W * nat (block - i)),
                 maskPixelsAt = 4 * (length img + (b + W * nat (block - i)))\<rparr>"
  using assms
proof (induction "nat (block - i)" arbitrary: i img a b)
  case 0
  then have "\<not> i < block" by simp
  with 0 show ?case by (simp add: vector_loop_shared.simps [of W block i] masked_0)
next
  case (Suc k)
  then have lt: "i < block" and k: "k = nat (block - (i + 1))"
    and n: "nat (block - i) = Suc (nat (block - (i + 1)))" by simp_all
  have bounds: "a + W \<le> length img" "b + W \<le> length msk"
    using Suc.prems n by simp_all
  have rest: "a + W + W * nat (block - (i + 1)) \<le> length (masked img msk a b W)"
    "b + W + W * nat (block - (i + 1)) \<le> length msk"
    using Suc.prems n by (simp_all add: length_masked)
  have "vector_loop_shared W block i
        \<lparr>memory = img @ msk, pixelsAt = 4 * a, maskPixelsAt = 4 * (length img + b)\<rparr>
     = vector_loop_shared W block (i + 1)
        \<lparr>memory = masked img msk a b W @ msk, pixelsAt = 4 * (a + W),
           maskPixelsAt = 4 * (length (masked img msk a b W) + (b + W))\<rparr>"
    using lt vector_step_shared_apart [OF bounds]
    by (simp add: vector_loop_shared.simps [of W block i] length_masked)
  also have "\<dots> = Some \<lparr>memory = masked (masked img msk a b W) msk (a + W) (b + W)
                               (W * nat (block - (i + 1))) @ msk,
                   pixelsAt = 4 * (a + W + W * nat (block - (i + 1))),
                   maskPixelsAt = 4 * (length (masked img msk a b W)
                     + (b + W + W * nat (block - (i + 1))))\<rparr>"
    by (rule Suc.hyps(1) [OF k rest])
  finally show ?case
    by (simp add: masked_masked n add.assoc length_masked)
qed

lemma fallback_loop_shared_apart:
  assumes "a + nat (n - i) \<le> length img" "b + nat (n - i) \<le> length msk"
  shows "fallback_loop_shared n i
           \<lparr>memory = img @ msk, pixelsAt = 4 * a, maskPixelsAt = 4 * (length img + b)\<rparr>
         = Some \<lparr>memory = masked img msk a b (nat (n - i)) @ msk,
                 pixelsAt = 4 * (a + nat (n - i)),
                 maskPixelsAt = 4 * (length img + (b + nat (n - i)))\<rparr>"
  using assms
proof (induction "nat (n - i)" arbitrary: i img a b)
  case 0
  then have "\<not> i < n" by simp
  with 0 show ?case by (simp add: fallback_loop_shared.simps [of n i] masked_0)
next
  case (Suc k)
  then have lt: "i < n" and k: "k = nat (n - (i + 1))"
    and n: "nat (n - i) = Suc (nat (n - (i + 1)))" by simp_all
  have bounds: "a < length img" "b < length msk"
    using Suc.prems n by simp_all
  have rest: "a + 1 + nat (n - (i + 1)) \<le> length (masked img msk a b 1)"
    "b + 1 + nat (n - (i + 1)) \<le> length msk"
    using Suc.prems n by (simp_all add: length_masked)
  have "fallback_loop_shared n i
        \<lparr>memory = img @ msk, pixelsAt = 4 * a, maskPixelsAt = 4 * (length img + b)\<rparr>
     = fallback_loop_shared n (i + 1)
        \<lparr>memory = masked img msk a b 1 @ msk, pixelsAt = 4 * (a + 1),
           maskPixelsAt = 4 * (length (masked img msk a b 1) + (b + 1))\<rparr>"
    using lt fallback_step_shared_apart [OF bounds]
    by (simp add: fallback_loop_shared.simps [of n i] length_masked)
  also have "\<dots> = Some \<lparr>memory = masked (masked img msk a b 1) msk (a + 1) (b + 1)
                               (nat (n - (i + 1))) @ msk,
                   pixelsAt = 4 * (a + 1 + nat (n - (i + 1))),
                   maskPixelsAt = 4 * (length (masked img msk a b 1)
                     + (b + 1 + nat (n - (i + 1))))\<rparr>"
    by (rule Suc.hyps(1) [OF k rest])
  finally show ?case
    using masked_masked [of img msk a b 1 "nat (n - (i + 1))"] by (simp add: n length_masked)
qed

lemma applyLuminanceMask_shared_apart:
  assumes "a + nat n \<le> length img" "b + nat n \<le> length msk"
  shows "applyLuminanceMask_shared W (img @ msk) (4 * a) (4 * (length img + b)) n
         = map_option (\<lambda>(img', msk'). img' @ msk') (applyLuminanceMask W img msk (4 * a) (4 * b) n)"
proof -
  let ?k = "nat (n sdiv int W)" and ?r = "nat (n smod int W)"
  let ?mid = "masked img msk a b (W * ?k)"
  have split: "W * ?k + ?r = nat n" by (rule batches_split_sdiv)
  have vb: "a + W * nat (n sdiv int W - 0) \<le> length img" "b + W * nat (n sdiv int W - 0) \<le> length msk"
    using assms split by simp_all
  have fb: "a + W * ?k + nat (n smod int W - 0) \<le> length ?mid"
    "b + W * ?k + nat (n smod int W - 0) \<le> length msk"
    using assms split by (simp_all add: length_masked)
  have "applyLuminanceMask_shared W (img @ msk) (4 * a) (4 * (length img + b)) n
      = Some (masked ?mid msk (a + W * ?k) (b + W * ?k) ?r @ msk)"
    using vector_loop_shared_apart [OF vb] fallback_loop_shared_apart [OF fb]
    by (simp add: applyLuminanceMask_shared_def length_masked)
  also have "masked ?mid msk (a + W * ?k) (b + W * ?k) ?r = masked img msk a b (nat n)"
    by (simp add: masked_masked split)
  finally show ?thesis
    using applyLuminanceMask_masked [OF assms, of W] by simp
qed

section \<open>The claims\<close>

lemma applyLuminanceMask_from_start:
  assumes "nat n \<le> length img" "nat n \<le> length msk"
  shows "applyLuminanceMask W img msk 0 0 n = Some (masked img msk 0 0 (nat n), msk)"
  using applyLuminanceMask_masked [of 0 n img 0 msk W] assms by simp

lemma batches_le: "W * nat (n sdiv int W) \<le> nat n"
proof (cases "0 \<le> n")
  case True
  then show ?thesis using batches_split [OF True, of W] by (simp add: sdiv_smod_nonneg)
next
  case False
  then have "n sdiv int W \<le> 0" by (simp add: sdiv_smod_neg)
  then show ?thesis by simp
qed

lemma vector_loop_from_start:
  assumes "nat n \<le> length img" "nat n \<le> length msk"
  shows "vector_loop W (n sdiv int W) 0
           \<lparr>imageBuf = img, maskBuf = msk, pixels = 0, maskPixels = 0\<rparr>
         = Some \<lparr>imageBuf = masked img msk 0 0 (W * nat (n sdiv int W)), maskBuf = msk,
                 pixels = 4 * (W * nat (n sdiv int W)),
                 maskPixels = 4 * (W * nat (n sdiv int W))\<rparr>"
proof -
  have le: "W * nat (n sdiv int W) \<le> nat n" by (rule batches_le)
  have vb: "0 + W * nat (n sdiv int W - 0) \<le> length img" "0 + W * nat (n sdiv int W - 0) \<le> length msk"
    using assms le by simp_all
  show ?thesis
    using vector_loop_masked [OF vb] by simp
qed

text \<open>
  C1, as amended. On buffers that hold \<open>nPixels\<close> pixels the call returns, and for every
  pixel \<open>i\<close> below \<open>nPixels\<close> the new image alpha is the low 8 bits of the integer that the
  code computes in single precision, every operation rounded to nearest with ties to
  even: each weight times its raw 8-bit mask channel, the sum of the red and the green
  term, that sum plus the blue term, \<open>maskValue\<close> as the raw mask alpha times this sum,
  the product of the raw image alpha and \<open>maskValue\<close>, itself rounded to single precision,
  and last this product rounded to the nearest integer, a tie to the even one. Nothing
  is normalized, and the red, green and blue channels of the image pixel are carried
  through unchanged. The pixels of the full batches have these values when the
  vectorized loop returns.
\<close>

theorem applyLuminanceMask_new_alpha:
  assumes "nat n \<le> length img" "nat n \<le> length msk" "i < nat n"
  shows "newImageAlpha (img ! i) (msk ! i) =
           nearbyint_as_int
             (fmul (to_float (channel 24 (img ! i)))
                (fmul (to_float (channel 24 (msk ! i)))
                   (fadd (fadd (fmul redLum (to_float (channel 16 (msk ! i))))
                               (fmul greenLum (to_float (channel 8 (msk ! i)))))
                         (fmul blueLum (to_float (channel 0 (msk ! i))))))) \<and>
         (\<exists>st. vector_loop W (n sdiv int W) 0
                 \<lparr>imageBuf = img, maskBuf = msk, pixels = 0, maskPixels = 0\<rparr> = Some st \<and>
            (i < W * nat (n sdiv int W) \<longrightarrow>
               channel 24 (imageBuf st ! i) = newImageAlpha (img ! i) (msk ! i) mod 256 \<and>
               channel 16 (imageBuf st ! i) = channel 16 (img ! i) \<and>
               channel 8 (imageBuf st ! i) = channel 8 (img ! i) \<and>
               channel 0 (imageBuf st ! i) = channel 0 (img ! i))) \<and>
         (\<exists>img'. applyLuminanceMask W img msk 0 0 n = Some (img', msk) \<and>
            channel 24 (img' ! i) = newImageAlpha (img ! i) (msk ! i) mod 256 \<and>
            channel 16 (img' ! i) = channel 16 (img ! i) \<and>
            channel 8 (img' ! i) = channel 8 (img ! i) \<and>
            channel 0 (img' ! i) = channel 0 (img ! i))"
proof (intro conjI)
  show "newImageAlpha (img ! i) (msk ! i) =
           nearbyint_as_int
             (fmul (to_float (channel 24 (img ! i)))
                (fmul (to_float (channel 24 (msk ! i)))
                   (fadd (fadd (fmul redLum (to_float (channel 16 (msk ! i))))
                               (fmul greenLum (to_float (channel 8 (msk ! i)))))
                         (fmul blueLum (to_float (channel 0 (msk ! i)))))))"
    by (simp add: newImageAlpha_def maskLuma_def)
  have px: "channel 24 (luminancePixel s m) = newImageAlpha s m mod 256 \<and>
      channel 16 (luminancePixel s m) = channel 16 s \<and>
      channel 8 (luminancePixel s m) = channel 8 s \<and>
      channel 0 (luminancePixel s m) = channel 0 s" for s m
    using channel_rgb_cong [OF luminancePixel_rgb [of s m]]
    by (simp add: luminancePixel_alpha)
  have i: "i < length img" using assms by simp
  show "\<exists>st. vector_loop W (n sdiv int W) 0
                 \<lparr>imageBuf = img, maskBuf = msk, pixels = 0, maskPixels = 0\<rparr> = Some st \<and>
            (i < W * nat (n sdiv int W) \<longrightarrow>
               channel 24 (imageBuf st ! i) = newImageAlpha (img ! i) (msk ! i) mod 256 \<and>
               channel 16 (imageBuf st ! i) = channel 16 (img ! i) \<and>
               channel 8 (imageBuf st ! i) = channel 8 (img ! i) \<and>
               channel 0 (imageBuf st ! i) = channel 0 (img ! i))"
    using vector_loop_from_start [OF assms(1,2), of W] i px [of "img ! i" "msk ! i"]
    by (simp add: nth_masked)
  show "\<exists>img'. applyLuminanceMask W img msk 0 0 n = Some (img', msk) \<and>
            channel 24 (img' ! i) = newImageAlpha (img ! i) (msk ! i) mod 256 \<and>
            channel 16 (img' ! i) = channel 16 (img ! i) \<and>
            channel 8 (img' ! i) = channel 8 (img ! i) \<and>
            channel 0 (img' ! i) = channel 0 (img ! i)"
    using applyLuminanceMask_from_start [OF assms(1,2), of W] i assms(3) px [of "img ! i" "msk ! i"]
    by (simp add: nth_masked)
qed

text \<open>The theorem at pixel 2 of the sample buffers, five pixels in batches of four.\<close>

theorem applyLuminanceMask_new_alpha_witness:
  "newImageAlpha (sample_image ! 2) (sample_mask ! 2) =
     nearbyint_as_int
       (fmul (to_float (channel 24 (sample_image ! 2)))
          (fmul (to_float (channel 24 (sample_mask ! 2)))
             (fadd (fadd (fmul redLum (to_float (channel 16 (sample_mask ! 2))))
                         (fmul greenLum (to_float (channel 8 (sample_mask ! 2)))))
                   (fmul blueLum (to_float (channel 0 (sample_mask ! 2))))))) \<and>
   (\<exists>st. vector_loop 4 (5 sdiv int 4) 0
           \<lparr>imageBuf = sample_image, maskBuf = sample_mask, pixels = 0, maskPixels = 0\<rparr> = Some st \<and>
      (2 < 4 * nat (5 sdiv int 4) \<longrightarrow>
         channel 24 (imageBuf st ! 2) = newImageAlpha (sample_image ! 2) (sample_mask ! 2) mod 256 \<and>
         channel 16 (imageBuf st ! 2) = channel 16 (sample_image ! 2) \<and>
         channel 8 (imageBuf st ! 2) = channel 8 (sample_image ! 2) \<and>
         channel 0 (imageBuf st ! 2) = channel 0 (sample_image ! 2))) \<and>
   (\<exists>img'. applyLuminanceMask 4 sample_image sample_mask 0 0 5 = Some (img', sample_mask) \<and>
      channel 24 (img' ! 2) = newImageAlpha (sample_image ! 2) (sample_mask ! 2) mod 256 \<and>
      channel 16 (img' ! 2) = channel 16 (sample_image ! 2) \<and>
      channel 8 (img' ! 2) = channel 8 (sample_image ! 2) \<and>
      channel 0 (img' ! 2) = channel 0 (sample_image ! 2))"
  by (rule applyLuminanceMask_new_alpha) (simp_all add: sample_image_def sample_mask_def)

text \<open>
  C1 as stated fails, in one batch of four pixels. The first image pixel has alpha 128
  under a white mask pixel of alpha 128: the integer nearest to \<open>imageAlpha * maskValue\<close>
  is \<open>128 * (128 * 255) = 4177920\<close>, and the alpha that is stored is 0. The second has
  alpha 235 under the mask pixel of alpha 252, red 66, green 204 and blue 37: the product
  of the raw values with the decimal weights is 9631203.246, whose nearest integer is
  9631203, while the single-precision product is 9631201, and its low byte 225 is stored.
  The third has alpha 129 under the mask pixel of alpha 1, red 135, green 53 and blue
  248: the single-precision \<open>maskValue\<close> is \<open>11073552 / 2 ^ 17\<close>, and 129 times it is
  10898.50012, whose nearest integer is 10899; the code rounds the product to the single
  precision 10898.5 first and then to the even integer 10898, and stores its low byte
  146.
\<close>

theorem new_alpha_is_not_the_rounded_product:
  "applyLuminanceMask 4 [0x80123456, 0xEB000000, 0x81000000, 0xC8FFFFFF]
       [0x80FFFFFF, 0xFC42CC25, 0x018735F8, 0x40808080] 0 0 4
     = Some ([0x00123456, 0xE1000000, 0x92000000, 0x00FFFFFF],
             [0x80FFFFFF, 0xFC42CC25, 0x018735F8, 0x40808080]) \<and>
   channel 24 0x00123456 = 0 \<and>
   newImageAlpha 0x80123456 0x80FFFFFF = 4177920 \<and>
   channel 24 0xE1000000 = 225 \<and>
   newImageAlpha 0xEB000000 0xFC42CC25 = 9631201 \<and>
   rne_div (235 * (252 * (2125 * 66 + 7154 * 204 + 721 * 37))) 10000 = 9631203 \<and>
   channel 24 0x92000000 = 146 \<and>
   newImageAlpha 0x81000000 0x018735F8 = 10898 \<and>
   maskLuma 0x018735F8 = F32 11073552 (- 17) \<and>
   rne_div (129 * 11073552) (2 ^ 17) = 10899"
  by code_simp

text \<open>
  C2. On buffers that hold the \<open>nPixels\<close> pixels from the two cursors on, the vectorized
  variant returns the same pair of buffers as the scalar fallback run over the same
  pixels, which is also what the variant without a vectorized implementation returns:
  a run of full batches followed by the fallback on the remainder equals an all-scalar
  run, and both return.
\<close>

theorem vectorized_equals_fallback:
  assumes "a + nat n \<le> length img" "b + nat n \<le> length msk"
  shows "applyLuminanceMask W img msk (4 * a) (4 * b) n = fallbackLuminanceMask img msk (4 * a) (4 * b) n \<and>
         applyLuminanceMask W img msk (4 * a) (4 * b) n = applyLuminanceMask_generic img msk (4 * a) (4 * b) n \<and>
         (\<exists>img'. fallbackLuminanceMask img msk (4 * a) (4 * b) n = Some (img', msk))"
  using applyLuminanceMask_masked [OF assms, of W] fallbackLuminanceMask_masked [OF assms]
  by (simp add: applyLuminanceMask_generic_def)

text \<open>Five pixels in batches of four, the image cursor one pixel into the sample image.\<close>

theorem vectorized_equals_fallback_witness:
  "applyLuminanceMask 4 sample_image sample_mask (4 * 1) (4 * 0) 5
     = fallbackLuminanceMask sample_image sample_mask (4 * 1) (4 * 0) 5 \<and>
   applyLuminanceMask 4 sample_image sample_mask (4 * 1) (4 * 0) 5
     = applyLuminanceMask_generic sample_image sample_mask (4 * 1) (4 * 0) 5 \<and>
   (\<exists>img'. fallbackLuminanceMask sample_image sample_mask (4 * 1) (4 * 0) 5 = Some (img', sample_mask))"
  by (rule vectorized_equals_fallback) (simp_all add: sample_image_def sample_mask_def)

text \<open>
  C3. For \<open>0 \<le> nPixels\<close>, on buffers that hold \<open>nPixels\<close> pixels: \<^verbatim>\<open>block\<close> and \<^verbatim>\<open>block2\<close> are
  the quotient and the remainder of \<open>nPixels\<close> by the batch width \<open>W\<close>, so that \<open>W * block +
  block2 = nPixels\<close>; every batch advances both cursors by \<open>4 * W\<close> bytes; the vectorized
  loop ends with both cursors \<open>W * block\<close> pixels on, having replaced exactly the first
  \<open>W * block\<close> pixels by the per-pixel rule, each applied once to the pixel the buffer
  held before the call, and left the others and the mask as they were. Whatever
  function stands in the place of the fallback, the call is that function applied to
  this state of the buffers, at these cursors, with the count \<open>block2\<close>: the fallback is
  invoked once, on the trailing remainder and nothing else. With the fallback of the
  specification the call returns the buffer in which each of the first \<open>nPixels\<close> pixels
  is the per-pixel rule applied once and every later pixel is untouched. The variant
  without a vectorized implementation calls the fallback for all \<open>nPixels\<close>, with the same
  result.
\<close>

theorem dispatch_batches_then_remainder:
  assumes "0 \<le> n" "nat n \<le> length img" "nat n \<le> length msk"
  shows "n sdiv int W = n div int W \<and> n smod int W = n mod int W \<and>
    W * nat (n div int W) + nat (n mod int W) = nat n \<and>
    (\<forall>st st'. vector_step W st = Some st' \<longrightarrow>
       pixels st' = pixels st + 4 * W \<and> maskPixels st' = maskPixels st + 4 * W) \<and>
    (\<exists>st. vector_loop W (n sdiv int W) 0
             \<lparr>imageBuf = img, maskBuf = msk, pixels = 0, maskPixels = 0\<rparr> = Some st \<and>
          pixels st = 4 * (W * nat (n div int W)) \<and>
          maskPixels st = 4 * (W * nat (n div int W)) \<and>
          maskBuf st = msk \<and>
          length (imageBuf st) = length img \<and>
          (\<forall>j<length img. imageBuf st ! j =
             (if j < W * nat (n div int W) then luminancePixel (img ! j) (msk ! j) else img ! j)) \<and>
          (\<forall>fallback. applyLuminanceMask_with fallback W img msk 0 0 n =
             fallback (imageBuf st) (maskBuf st) (pixels st) (maskPixels st) (n mod int W))) \<and>
    (\<forall>fallback. applyLuminanceMask_with fallback W img msk 0 0 n =
       fallback (masked img msk 0 0 (W * nat (n div int W))) msk
         (4 * (W * nat (n div int W))) (4 * (W * nat (n div int W))) (n mod int W)) \<and>
    (\<exists>img'. applyLuminanceMask W img msk 0 0 n = Some (img', msk) \<and>
          length img' = length img \<and>
          (\<forall>j<length img. img' ! j =
             (if j < nat n then luminancePixel (img ! j) (msk ! j) else img ! j))) \<and>
    applyLuminanceMask_generic img msk 0 0 n = fallbackLuminanceMask img msk 0 0 n \<and>
    applyLuminanceMask_generic img msk 0 0 n = applyLuminanceMask W img msk 0 0 n"
proof -
  let ?k = "nat (n div int W)"
  let ?init = "\<lparr>imageBuf = img, maskBuf = msk, pixels = 0, maskPixels = 0\<rparr>"
  let ?fin = "\<lparr>imageBuf = masked img msk 0 0 (W * ?k), maskBuf = msk,
               pixels = 4 * (W * ?k), maskPixels = 4 * (W * ?k)\<rparr>"
  have split: "W * ?k + nat (n mod int W) = nat n"
    using assms(1) by (rule batches_split)
  have sd: "n sdiv int W = n div int W" "n smod int W = n mod int W"
    using assms(1) by (simp_all add: sdiv_smod_nonneg)
  have step: "pixels st' = pixels st + 4 * W \<and> maskPixels st' = maskPixels st + 4 * W"
    if "vector_step W st = Some st'" for st st'
    using that
    by (auto simp add: vector_step_def vectorPixelStride_def split: option.splits)
  have loop: "vector_loop W (n sdiv int W) 0 ?init = Some ?fin"
    using vector_loop_from_start [OF assms(2,3), of W] by (simp add: sd)
  have call: "applyLuminanceMask_with fallback W img msk 0 0 n =
      fallback (imageBuf ?fin) (maskBuf ?fin) (pixels ?fin) (maskPixels ?fin) (n mod int W)"
    for fallback
    using loop by (simp add: applyLuminanceMask_with_def sd)
  have nth: "\<forall>j<length img. imageBuf ?fin ! j =
      (if j < W * ?k then luminancePixel (img ! j) (msk ! j) else img ! j)"
    by (simp add: nth_masked)
  have whole: "applyLuminanceMask W img msk 0 0 n = Some (masked img msk 0 0 (nat n), msk)"
    using assms(2,3) by (rule applyLuminanceMask_from_start)
  have nth': "\<forall>j<length img. masked img msk 0 0 (nat n) ! j =
      (if j < nat n then luminancePixel (img ! j) (msk ! j) else img ! j)"
    by (simp add: nth_masked)
  have gen: "applyLuminanceMask_generic img msk 0 0 n = Some (masked img msk 0 0 (nat n), msk)"
    using fallbackLuminanceMask_masked [of 0 n img 0 msk] assms(2,3)
    by (simp add: applyLuminanceMask_generic_def)
  have ex1: "\<exists>st. vector_loop W (n sdiv int W) 0 ?init = Some st \<and>
          pixels st = 4 * (W * nat (n div int W)) \<and>
          maskPixels st = 4 * (W * nat (n div int W)) \<and>
          maskBuf st = msk \<and>
          length (imageBuf st) = length img \<and>
          (\<forall>j<length img. imageBuf st ! j =
             (if j < W * nat (n div int W) then luminancePixel (img ! j) (msk ! j) else img ! j)) \<and>
          (\<forall>fallback. applyLuminanceMask_with fallback W img msk 0 0 n =
             fallback (imageBuf st) (maskBuf st) (pixels st) (maskPixels st) (n mod int W))"
    using loop call nth by (intro exI [of _ ?fin]) (simp add: length_masked)
  have any: "\<forall>fallback. applyLuminanceMask_with fallback W img msk 0 0 n =
       fallback (masked img msk 0 0 (W * nat (n div int W))) msk
         (4 * (W * nat (n div int W))) (4 * (W * nat (n div int W))) (n mod int W)"
    using call by simp
  have ex2: "\<exists>img'. applyLuminanceMask W img msk 0 0 n = Some (img', msk) \<and>
          length img' = length img \<and>
          (\<forall>j<length img. img' ! j =
             (if j < nat n then luminancePixel (img ! j) (msk ! j) else img ! j))"
    using whole nth' by (intro exI [of _ "masked img msk 0 0 (nat n)"]) (simp add: length_masked)
  have gen': "applyLuminanceMask_generic img msk 0 0 n = fallbackLuminanceMask img msk 0 0 n"
    by (simp add: applyLuminanceMask_generic_def)
  from sd step split ex1 any ex2 gen' gen whole show ?thesis
    by (intro conjI allI impI) (simp_all only:)
qed

text \<open>
  Five pixels in batches of four with the recording function in the place of the
  fallback: it is called on the image with the four pixels of the one batch replaced,
  at byte 16 of both buffers, with the count 1.
\<close>

theorem dispatch_batches_then_remainder_witness:
  "applyLuminanceMask_with probe 4 sample_image sample_mask 0 0 5
     = probe (masked sample_image sample_mask 0 0 (4 * nat (5 div int 4))) sample_mask
         (4 * (4 * nat (5 div int 4))) (4 * (4 * nat (5 div int 4))) (5 mod int 4) \<and>
   probe (masked sample_image sample_mask 0 0 (4 * nat (5 div int 4))) sample_mask
         (4 * (4 * nat (5 div int 4))) (4 * (4 * nat (5 div int 4))) (5 mod int 4)
     = Some ([0xC8123456, 0xFF000001, 0x00ABCDEF, 0xC3020304, 0x7F010203, 0x11111111], [16, 16, 1]) \<and>
   4 * nat (5 div int 4) + nat (5 mod int 4) = nat 5 \<and>
   (\<exists>img'. applyLuminanceMask 4 sample_image sample_mask 0 0 5 = Some (img', sample_mask) \<and>
          length img' = length sample_image \<and>
          (\<forall>j<length sample_image. img' ! j =
             (if j < nat 5 then luminancePixel (sample_image ! j) (sample_mask ! j)
              else sample_image ! j))) \<and>
   applyLuminanceMask_generic sample_image sample_mask 0 0 5
      = applyLuminanceMask 4 sample_image sample_mask 0 0 5"
proof -
  have h: "(0 :: int) \<le> 5" "nat 5 \<le> length sample_image" "nat 5 \<le> length sample_mask"
    by (simp_all add: sample_image_def sample_mask_def)
  note t = dispatch_batches_then_remainder [OF h, of 4]
  have e: "probe (masked sample_image sample_mask 0 0 (4 * nat (5 div int 4))) sample_mask
         (4 * (4 * nat (5 div int 4))) (4 * (4 * nat (5 div int 4))) (5 mod int 4)
     = Some ([0xC8123456, 0xFF000001, 0x00ABCDEF, 0xC3020304, 0x7F010203, 0x11111111], [16, 16, 1])"
    by code_simp
  from t e show ?thesis
    by blast
qed

text \<open>
  C4. A call on buffers that hold \<open>nPixels\<close> pixels returns; and whatever the cursors,
  the count and the batch width, a run of the vectorized loop that returns, and a call
  that returns, leave the image buffer at its length and every image pixel with the low
  24 bits it had, that is with its red, green and blue channels: only alpha bits are
  replaced.
\<close>

theorem rgb_channels_unchanged:
  "(nat n \<le> length img \<and> nat n \<le> length msk \<longrightarrow>
      (\<exists>img'. applyLuminanceMask W img msk 0 0 n = Some (img', msk))) \<and>
   (\<forall>st'. vector_loop W block i st = Some st' \<longrightarrow>
      length (imageBuf st') = length (imageBuf st) \<and>
      (\<forall>j<length (imageBuf st).
         imageBuf st' ! j AND 0x00FFFFFF = imageBuf st ! j AND 0x00FFFFFF)) \<and>
   (\<forall>img' msk'. applyLuminanceMask W img msk p mp n = Some (img', msk') \<longrightarrow>
      length img' = length img \<and>
      (\<forall>j<length img.
         img' ! j AND 0x00FFFFFF = img ! j AND 0x00FFFFFF \<and>
         channel 16 (img' ! j) = channel 16 (img ! j) \<and>
         channel 8 (img' ! j) = channel 8 (img ! j) \<and>
         channel 0 (img' ! j) = channel 0 (img ! j)))"
proof (intro conjI allI impI)
  assume "nat n \<le> length img \<and> nat n \<le> length msk"
  then show "\<exists>img'. applyLuminanceMask W img msk 0 0 n = Some (img', msk)"
    by (simp add: applyLuminanceMask_from_start)
next
  fix st' j
  assume "vector_loop W block i st = Some st'"
  then have loop: "same_rgb (imageBuf st) (imageBuf st')"
    by (simp add: vector_loop_Some)
  show "length (imageBuf st') = length (imageBuf st)"
    using same_rgb_nth [OF loop] by simp
  assume "j < length (imageBuf st)"
  then show "imageBuf st' ! j AND 0x00FFFFFF = imageBuf st ! j AND 0x00FFFFFF"
    using same_rgb_nth [OF loop] by simp
next
  fix img' msk'
  assume run: "applyLuminanceMask W img msk p mp n = Some (img', msk')"
  then have same: "length img' = length img"
    "\<And>j. j < length img \<Longrightarrow> img' ! j AND 0x00FFFFFF = img ! j AND 0x00FFFFFF"
    using same_rgb_nth [of img img'] applyLuminanceMask_Some [OF run] by simp_all
  show "length img' = length img" by (rule same(1))
  fix j
  assume j: "j < length img"
  show "img' ! j AND 0x00FFFFFF = img ! j AND 0x00FFFFFF" by (rule same(2) [OF j])
  show "channel 16 (img' ! j) = channel 16 (img ! j)"
    by (rule channel_rgb_cong [OF same(2) [OF j]]) simp
  show "channel 8 (img' ! j) = channel 8 (img ! j)"
    by (rule channel_rgb_cong [OF same(2) [OF j]]) simp
  show "channel 0 (img' ! j) = channel 0 (img ! j)"
    by (rule channel_rgb_cong [OF same(2) [OF j]]) simp
qed

text \<open>
  Pixel 3 of the sample image after five pixels in batches of four: the same colour
  channels under another alpha.
\<close>

theorem rgb_channels_unchanged_witness:
  "\<exists>img'. applyLuminanceMask 4 sample_image sample_mask 0 0 5 = Some (img', sample_mask) \<and>
     length img' = length sample_image \<and>
     img' ! 3 AND 0x00FFFFFF = sample_image ! 3 AND 0x00FFFFFF \<and>
     channel 16 (img' ! 3) = channel 16 (sample_image ! 3) \<and>
     channel 8 (img' ! 3) = channel 8 (sample_image ! 3) \<and>
     channel 0 (img' ! 3) = channel 0 (sample_image ! 3) \<and>
     channel 24 (img' ! 3) \<noteq> channel 24 (sample_image ! 3)"
proof -
  have h: "nat 5 \<le> length sample_image \<and> nat 5 \<le> length sample_mask"
    by (simp add: sample_image_def sample_mask_def)
  note t = rgb_channels_unchanged [of 5 sample_image sample_mask 4 _ _ _ 0 0]
  from t h obtain img' where run: "applyLuminanceMask 4 sample_image sample_mask 0 0 5 = Some (img', sample_mask)"
    by blast
  have out: "img' = [0xC8123456, 0xFF000001, 0x00ABCDEF, 0xC3020304, 0x7F010203, 0x11111111]"
  proof -
    have "applyLuminanceMask 4 sample_image sample_mask 0 0 5
      = Some ([0xC8123456, 0xFF000001, 0x00ABCDEF, 0xC3020304, 0x7F010203, 0x11111111], sample_mask)"
      by code_simp
    with run show ?thesis by simp
  qed
  have a: "channel 24 (img' ! 3) \<noteq> channel 24 (sample_image ! 3)"
    unfolding out sample_image_def by code_simp
  have j: "(3 :: nat) < length sample_image" by (simp add: sample_image_def)
  from t run j a show ?thesis by blast
qed

text \<open>
  C5. The computed alpha is not clamped: for every pixel \<open>i\<close> below \<open>nPixels\<close> the stored
  alpha is the rounded product \<open>imageAlpha * maskValue\<close> modulo 256, its low 8 bits,
  whether or not the product exceeds 255; for a pixel of a full batch it is stored by
  the vectorized loop.
\<close>

theorem stored_alpha_is_low_byte:
  assumes "nat n \<le> length img" "nat n \<le> length msk" "i < nat n"
  shows "(\<exists>st. vector_loop W (n sdiv int W) 0
                 \<lparr>imageBuf = img, maskBuf = msk, pixels = 0, maskPixels = 0\<rparr> = Some st \<and>
            (i < W * nat (n sdiv int W) \<longrightarrow>
               channel 24 (imageBuf st ! i) = newImageAlpha (img ! i) (msk ! i) mod 256)) \<and>
         (\<exists>img'. applyLuminanceMask W img msk 0 0 n = Some (img', msk) \<and>
            channel 24 (img' ! i) = newImageAlpha (img ! i) (msk ! i) mod 256)"
proof -
  have i: "i < length img" using assms by simp
  show ?thesis
    using vector_loop_from_start [OF assms(1,2), of W]
      applyLuminanceMask_from_start [OF assms(1,2), of W] i assms(3)
    by (simp add: nth_masked luminancePixel_alpha)
qed

text \<open>
  Pixel 2 of the sample buffers: the rounded product is 4177920, far above 255, and the
  stored alpha is its low byte 0, not 255.
\<close>

theorem stored_alpha_is_low_byte_witness:
  "newImageAlpha (sample_image ! 2) (sample_mask ! 2) = 4177920 \<and>
   (\<exists>st. vector_loop 4 (5 sdiv int 4) 0
           \<lparr>imageBuf = sample_image, maskBuf = sample_mask, pixels = 0, maskPixels = 0\<rparr> = Some st \<and>
      channel 24 (imageBuf st ! 2) = newImageAlpha (sample_image ! 2) (sample_mask ! 2) mod 256 \<and>
      channel 24 (imageBuf st ! 2) = 0) \<and>
   (\<exists>img'. applyLuminanceMask 4 sample_image sample_mask 0 0 5 = Some (img', sample_mask) \<and>
      channel 24 (img' ! 2) = newImageAlpha (sample_image ! 2) (sample_mask ! 2) mod 256 \<and>
      channel 24 (img' ! 2) = 0)"
proof -
  have h: "nat 5 \<le> length sample_image" "nat 5 \<le> length sample_mask" "2 < nat 5"
    by (simp_all add: sample_image_def sample_mask_def)
  have v: "newImageAlpha (sample_image ! 2) (sample_mask ! 2) = 4177920"
    by code_simp
  have b: "(2 :: nat) < 4 * nat (5 sdiv int 4)"
    by (simp add: signed_divide_int_def)
  from stored_alpha_is_low_byte [OF h, of 4] v b show ?thesis
    by auto
qed

text \<open>
  C6. The new alpha of pixel \<open>i\<close> is a function of the alpha of image pixel \<open>i\<close> and of the
  four channels of mask pixel \<open>i\<close> alone: two calls, on any buffers, counts and batch
  widths, whose inputs agree on these five values at \<open>i\<close> store the same alpha at \<open>i\<close>.
  And for every split point \<open>0 \<le> k \<le> nPixels\<close>, the call on the first \<open>k\<close> pixels followed by
  the call on the remaining \<open>nPixels - k\<close>, both pointers advanced by \<open>4 * k\<close> bytes, returns
  the image buffer of the one call over all \<open>nPixels\<close>.
\<close>

theorem split_call_equals_single_call:
  assumes "0 \<le> k" "k \<le> n" "nat n \<le> length img" "nat n \<le> length msk"
    and "nat n' \<le> length img'" "nat n' \<le> length msk'" "i < nat n" "i < nat n'"
    and "channel 24 (img' ! i) = channel 24 (img ! i)"
    and "channel 24 (msk' ! i) = channel 24 (msk ! i)" "channel 16 (msk' ! i) = channel 16 (msk ! i)"
    and "channel 8 (msk' ! i) = channel 8 (msk ! i)" "channel 0 (msk' ! i) = channel 0 (msk ! i)"
  shows "\<exists>out out' img1.
           applyLuminanceMask W img msk 0 0 n = Some (out, msk) \<and>
           applyLuminanceMask W' img' msk' 0 0 n' = Some (out', msk') \<and>
           channel 24 (out' ! i) = channel 24 (out ! i) \<and>
           applyLuminanceMask W img msk 0 0 k = Some (img1, msk) \<and>
           applyLuminanceMask W img1 msk (4 * nat k) (4 * nat k) (n - k) = Some (out, msk)"
proof -
  let ?out = "masked img msk 0 0 (nat n)" and ?out' = "masked img' msk' 0 0 (nat n')"
  let ?img1 = "masked img msk 0 0 (nat k)"
  have whole: "applyLuminanceMask W img msk 0 0 n = Some (?out, msk)"
    using assms(3,4) by (rule applyLuminanceMask_from_start)
  have other: "applyLuminanceMask W' img' msk' 0 0 n' = Some (?out', msk')"
    using assms(5,6) by (rule applyLuminanceMask_from_start)
  have "newImageAlpha (img' ! i) (msk' ! i) = newImageAlpha (img ! i) (msk ! i)"
    using assms(9-13) by (simp add: newImageAlpha_def maskLuma_def)
  moreover have "?out ! i = luminancePixel (img ! i) (msk ! i)"
    "?out' ! i = luminancePixel (img' ! i) (msk' ! i)"
    using assms(3,5,7,8) by (simp_all add: nth_masked)
  ultimately have alpha: "channel 24 (?out' ! i) = channel 24 (?out ! i)"
    by (simp only: luminancePixel_alpha)
  have kn: "nat k \<le> length img" "nat k \<le> length msk" "nat k + nat (n - k) = nat n"
    using assms(1-4) by simp_all
  have first: "applyLuminanceMask W img msk 0 0 k = Some (?img1, msk)"
    using kn(1,2) by (rule applyLuminanceMask_from_start)
  have "applyLuminanceMask W ?img1 msk (4 * nat k) (4 * nat k) (n - k)
          = Some (masked ?img1 msk (nat k) (nat k) (nat (n - k)), msk)"
    using assms(3,4) kn(3) by (intro applyLuminanceMask_masked) (simp_all add: length_masked)
  also have "masked ?img1 msk (nat k) (nat k) (nat (n - k)) = ?out"
    using masked_masked [of img msk 0 0 "nat k" "nat (n - k)"] by (simp add: kn(3))
  finally have second: "applyLuminanceMask W ?img1 msk (4 * nat k) (4 * nat k) (n - k) = Some (?out, msk)" .
  from whole other alpha first second show ?thesis by blast
qed

text \<open>
  Five sample pixels split after the third, in batches of four; and a second call with
  batches of eight on other buffers that agree with the sample at pixel 2.
\<close>

theorem split_call_equals_single_call_witness:
  "\<exists>out out' img1.
     applyLuminanceMask 4 sample_image sample_mask 0 0 5 = Some (out, sample_mask) \<and>
     applyLuminanceMask 8 [0x80000000, 0x00000000, 0x80FFFFFF] [0x00000000, 0x00000000, 0x80FFFFFF] 0 0 3
       = Some (out', [0x00000000, 0x00000000, 0x80FFFFFF]) \<and>
     channel 24 (out' ! 2) = channel 24 (out ! 2) \<and>
     applyLuminanceMask 4 sample_image sample_mask 0 0 3 = Some (img1, sample_mask) \<and>
     applyLuminanceMask 4 img1 sample_mask (4 * nat 3) (4 * nat 3) (5 - 3) = Some (out, sample_mask)"
  by (rule split_call_equals_single_call) (code_simp+)

text \<open>
  C7. If the alpha channel of each of the \<open>nPixels\<close> mask pixels is 0, the vectorized
  loop returns with alpha 0 in every pixel of its batches, and the call returns an image
  buffer in which the alpha channel of each of the \<open>nPixels\<close> pixels is 0, whatever the
  image alphas and the red, green and blue of the mask.
\<close>

theorem zero_mask_alpha_clears_alpha:
  assumes "nat n \<le> length img" "nat n \<le> length msk"
    and "\<forall>i<nat n. channel 24 (msk ! i) = 0"
  shows "(\<exists>st. vector_loop W (n sdiv int W) 0
                 \<lparr>imageBuf = img, maskBuf = msk, pixels = 0, maskPixels = 0\<rparr> = Some st \<and>
            (\<forall>i<W * nat (n sdiv int W). channel 24 (imageBuf st ! i) = 0)) \<and>
         (\<exists>img'. applyLuminanceMask W img msk 0 0 n = Some (img', msk) \<and>
            (\<forall>i<nat n. channel 24 (img' ! i) = 0))"
proof -
  have le: "W * nat (n sdiv int W) \<le> nat n" by (rule batches_le)
  have z: "channel 24 (luminancePixel (img ! i) (msk ! i)) = 0" if "i < nat n" for i
    using that assms(3) by (simp add: luminancePixel_alpha newImageAlpha_mask_alpha_0)
  have "channel 24 (masked img msk 0 0 k ! i) = 0" if "i < k" "k \<le> nat n" for i k
    using that assms(1) z [of i] by (simp add: nth_masked)
  then show ?thesis
    using vector_loop_from_start [OF assms(1,2), of W]
      applyLuminanceMask_from_start [OF assms(1,2), of W] le
    by simp
qed

text \<open>The sample image under the mask whose first five alphas are 0.\<close>

theorem zero_mask_alpha_clears_alpha_witness:
  "(\<exists>st. vector_loop 4 (5 sdiv int 4) 0
           \<lparr>imageBuf = sample_image, maskBuf = clear_mask, pixels = 0, maskPixels = 0\<rparr> = Some st \<and>
      (\<forall>i<4 * nat (5 sdiv int 4). channel 24 (imageBuf st ! i) = 0)) \<and>
   (\<exists>img'. applyLuminanceMask 4 sample_image clear_mask 0 0 5 = Some (img', clear_mask) \<and>
     (\<forall>i<nat 5. channel 24 (img' ! i) = 0))"
proof (rule zero_mask_alpha_clears_alpha)
  show "nat 5 \<le> length sample_image" "nat 5 \<le> length clear_mask"
    by (simp_all add: sample_image_def clear_mask_def)
  have "list_all (\<lambda>m. channel 24 m = 0) (take (nat 5) clear_mask)"
    by code_simp
  moreover have "length clear_mask = 6"
    by (simp add: clear_mask_def)
  ultimately show "\<forall>i<nat 5. channel 24 (clear_mask ! i) = 0"
    by (simp add: list_all_length)
qed

text \<open>
  C8. For the full-white opaque mask pixel \<open>0xFFFFFFFF\<close>, \<open>maskValue\<close> is exactly \<open>65025 =
  255 * (0.2125 + 0.7154 + 0.0721) * 255\<close> (the single-precision sum has no rounding error
  here); the rounded product is \<open>65025 * imageAlpha\<close>, whose low 8 bits are \<open>imageAlpha\<close>
  again, since \<open>65025 mod 256 = 1\<close>. So the vectorized loop and the call under such a mask
  return the image buffer unchanged: an image alpha of 200 gives the product 13005000
  and the stored byte 200.
\<close>

theorem white_opaque_mask_keeps_alpha:
  assumes "nat n \<le> length img" "nat n \<le> length msk"
    and "\<forall>i<nat n. msk ! i = 0xFFFFFFFF"
  shows "maskLuma 0xFFFFFFFF = F32 (65025 * 2 ^ 8) (- 8) \<and>
         f32_value (maskLuma 0xFFFFFFFF) = 65025 \<and>
         (\<forall>i<nat n. newImageAlpha (img ! i) (msk ! i) = 65025 * channel 24 (img ! i) \<and>
                     newImageAlpha (img ! i) (msk ! i) mod 256 = channel 24 (img ! i)) \<and>
         (\<exists>st. vector_loop W (n sdiv int W) 0
                 \<lparr>imageBuf = img, maskBuf = msk, pixels = 0, maskPixels = 0\<rparr> = Some st \<and>
               imageBuf st = img) \<and>
         applyLuminanceMask W img msk 0 0 n = Some (img, msk)"
proof -
  have le: "W * nat (n sdiv int W) \<le> nat n" by (rule batches_le)
  have same: "masked img msk 0 0 k = img" if "k \<le> nat n" for k
    using assms(3) that
    by (intro nth_equalityI) (simp_all add: length_masked nth_masked luminancePixel_white)
  have run: "applyLuminanceMask W img msk 0 0 n = Some (img, msk)"
    using applyLuminanceMask_from_start [OF assms(1,2), of W] by (simp add: same)
  have loop: "\<exists>st. vector_loop W (n sdiv int W) 0
      \<lparr>imageBuf = img, maskBuf = msk, pixels = 0, maskPixels = 0\<rparr> = Some st \<and> imageBuf st = img"
    using vector_loop_from_start [OF assms(1,2), of W] by (simp add: same [OF le])
  have byte: "65025 * channel 24 s mod 256 = channel 24 s" for s
  proof -
    have "65025 * channel 24 s mod 256 = channel 24 s mod 256"
      by (rule mod_mult_cong [of 65025 256 1 "channel 24 s" "channel 24 s", simplified])
    then show ?thesis using channel_range [of 24 s] by simp
  qed
  have "f32_value (maskLuma 0xFFFFFFFF) = 65025"
    by (simp add: maskLuma_white f32_value_def power_int_def power_divide)
  then show ?thesis
    using run loop assms(3) by (simp add: maskLuma_white newImageAlpha_white byte)
qed

text \<open>The sample image, whose first pixel has alpha 200, under the white mask.\<close>

theorem white_opaque_mask_keeps_alpha_witness:
  "channel 24 (sample_image ! 0) = 200 \<and>
   maskLuma 0xFFFFFFFF = F32 (65025 * 2 ^ 8) (- 8) \<and>
   f32_value (maskLuma 0xFFFFFFFF) = 65025 \<and>
   newImageAlpha (sample_image ! 0) (white_mask ! 0) = 65025 * channel 24 (sample_image ! 0) \<and>
   newImageAlpha (sample_image ! 0) (white_mask ! 0) mod 256 = channel 24 (sample_image ! 0) \<and>
   (\<exists>st. vector_loop 4 (5 sdiv int 4) 0
           \<lparr>imageBuf = sample_image, maskBuf = white_mask, pixels = 0, maskPixels = 0\<rparr> = Some st \<and>
         imageBuf st = sample_image) \<and>
   applyLuminanceMask 4 sample_image white_mask 0 0 5 = Some (sample_image, white_mask)"
proof -
  have h: "nat 5 \<le> length sample_image" "nat 5 \<le> length white_mask"
    by (simp_all add: sample_image_def white_mask_def)
  have "list_all (\<lambda>m. m = 0xFFFFFFFF) (take (nat 5) white_mask)"
    by code_simp
  moreover have "length white_mask = 6"
    by (simp add: white_mask_def)
  ultimately have w: "\<forall>i<nat 5. white_mask ! i = 0xFFFFFFFF"
    by (simp add: list_all_length)
  have a: "channel 24 (sample_image ! 0) = 200"
    by code_simp
  have z: "(0 :: nat) < nat 5" by simp
  from white_opaque_mask_keeps_alpha [OF h w, of 4] a z show ?thesis
    by blast
qed

text \<open>
  C9, as amended. When the \<open>nPixels\<close> pixels from the image pointer on and the \<open>nPixels\<close>
  pixels from the mask pointer on lie in the memory and do not overlap, the vectorized
  loop and the call return, and every pixel of the mask range has the value it had
  before the call.
\<close>

theorem mask_buffer_unchanged:
  assumes "a + nat n \<le> length mem" "b + nat n \<le> length mem"
    and "a + nat n \<le> b \<or> b + nat n \<le> a"
  shows "(\<exists>st. vector_loop_shared W (n sdiv int W) 0
                 \<lparr>memory = mem, pixelsAt = 4 * a, maskPixelsAt = 4 * b\<rparr> = Some st \<and>
              length (memory st) = length mem \<and>
              (\<forall>j. b \<le> j \<and> j < b + nat n \<longrightarrow> memory st ! j = mem ! j)) \<and>
         (\<exists>mem'. applyLuminanceMask_shared W mem (4 * a) (4 * b) n = Some mem' \<and>
              length mem' = length mem \<and>
              (\<forall>j. b \<le> j \<and> j < b + nat n \<longrightarrow> mem' ! j = mem ! j))"
proof -
  have out: "\<forall>j. b \<le> j \<and> j < b + nat n \<longrightarrow> m' ! j = mem ! j" "length m' = length mem"
    if "kept_outside mem m' a (nat n)" for m'
    using that assms by (auto simp add: kept_outside_def)
  from applyLuminanceMask_shared_frame [OF assms(1,2), of W] obtain st mem' where
    loop: "vector_loop_shared W (n sdiv int W) 0
        \<lparr>memory = mem, pixelsAt = 4 * a, maskPixelsAt = 4 * b\<rparr> = Some st"
    and f1: "kept_outside mem (memory st) a (nat n)"
    and call: "applyLuminanceMask_shared W mem (4 * a) (4 * b) n = Some mem'"
    and f2: "kept_outside mem mem' a (nat n)"
    by blast
  from loop out [OF f1] call out [OF f2] show ?thesis by blast
qed

text \<open>
  The sample image and the sample mask side by side in one memory, five pixels in
  batches of four.
\<close>

theorem mask_buffer_unchanged_witness:
  "(\<exists>st. vector_loop_shared 4 (5 sdiv int 4) 0
           \<lparr>memory = sample_image @ sample_mask, pixelsAt = 4 * 0, maskPixelsAt = 4 * 6\<rparr> = Some st \<and>
        length (memory st) = length (sample_image @ sample_mask) \<and>
        (\<forall>j. 6 \<le> j \<and> j < 6 + nat 5 \<longrightarrow> memory st ! j = (sample_image @ sample_mask) ! j)) \<and>
   (\<exists>mem'. applyLuminanceMask_shared 4 (sample_image @ sample_mask) (4 * 0) (4 * 6) 5 = Some mem' \<and>
        length mem' = length (sample_image @ sample_mask) \<and>
        (\<forall>j. 6 \<le> j \<and> j < 6 + nat 5 \<longrightarrow> mem' ! j = (sample_image @ sample_mask) ! j))"
  by (rule mask_buffer_unchanged) (simp_all add: sample_image_def sample_mask_def)

text \<open>
  C9 as stated fails when both pointers are the same: one batch of four pixels of alpha
  128, white, used as their own mask. The only store of the loop goes through the image
  pointer and writes alpha 0 into every pixel, and these are the pixels of the mask.
\<close>

theorem aliased_mask_is_written:
  "vector_loop_shared 4 (4 sdiv int 4) 0
       \<lparr>memory = [0x80FFFFFF, 0x80FFFFFF, 0x80FFFFFF, 0x80FFFFFF], pixelsAt = 0, maskPixelsAt = 0\<rparr>
     = Some \<lparr>memory = [0x00FFFFFF, 0x00FFFFFF, 0x00FFFFFF, 0x00FFFFFF],
             pixelsAt = 16, maskPixelsAt = 16\<rparr> \<and>
   applyLuminanceMask_shared 4 [0x80FFFFFF, 0x80FFFFFF, 0x80FFFFFF, 0x80FFFFFF] 0 0 4
     = Some [0x00FFFFFF, 0x00FFFFFF, 0x00FFFFFF, 0x00FFFFFF] \<and>
   (0x00FFFFFF :: quint32) \<noteq> 0x80FFFFFF"
  by code_simp

text \<open>
  C10. With \<open>nPixels = 0\<close> the vectorized loop runs no iteration and returns its state,
  \<^verbatim>\<open>block2\<close> is 0, the fallback called with the count 0 returns the buffers it was given,
  and both variants of the call return the image and the mask unchanged, whatever the
  buffers, the cursors and the batch width.
\<close>

theorem zero_pixels_is_a_no_op:
  "vector_loop W (0 sdiv int W) 0 st = Some st \<and>
   0 smod int W = 0 \<and>
   fallback_loop 0 0 st = Some st \<and>
   fallbackLuminanceMask img msk p mp 0 = Some (img, msk) \<and>
   applyLuminanceMask W img msk p mp 0 = Some (img, msk) \<and>
   applyLuminanceMask_generic img msk p mp 0 = Some (img, msk)"
  by (simp add: vector_loop.simps [of W 0 0] fallback_loop.simps [of 0 0]
      applyLuminanceMask_def applyLuminanceMask_with_def applyLuminanceMask_generic_def
      fallbackLuminanceMask_def)

end
